theory Spec2Isabelle
  imports Complex_Main "HOL-Library.AList"
begin

chapter \<open>The program\<close>

section \<open>JavaScript values\<close>

text \<open>
  A JavaScript \<^verbatim>\<open>number\<close> is an IEEE double: a finite value (a rational), one of the two
  infinities, or NaN. Only comparisons of prices are modelled, so no rounding is involved.
  \<^verbatim>\<open>JSON.parse\<close> yields \<^verbatim>\<open>Infinity\<close> for a literal such as \<^verbatim>\<open>1e999\<close>.
\<close>

datatype jsnum = Fin rat | PosInf | NegInf | NaN

text \<open>The primitive values a field read from a JSON record can hold; \<open>Undefined\<close> is the
  absent property.\<close>

datatype jsval = Undefined | Null | Boolean bool | Number jsnum | String string

text \<open>\<^verbatim>\<open>a < b\<close> on numbers: false as soon as one side is NaN.\<close>

fun num_lt :: "jsnum \<Rightarrow> jsnum \<Rightarrow> bool" where
  "num_lt NaN _ = False"
| "num_lt _ NaN = False"
| "num_lt (Fin a) (Fin b) = (a < b)"
| "num_lt (Fin _) PosInf = True"
| "num_lt (Fin _) NegInf = False"
| "num_lt PosInf _ = False"
| "num_lt NegInf NegInf = False"
| "num_lt NegInf _ = True"

text \<open>\<^verbatim>\<open>a >= b\<close> on numbers.\<close>

fun num_ge :: "jsnum \<Rightarrow> jsnum \<Rightarrow> bool" where
  "num_ge NaN _ = False"
| "num_ge _ NaN = False"
| "num_ge a b = (\<not> num_lt a b)"

text \<open>\<^verbatim>\<open>typeof v === 'number'\<close>.\<close>

fun typeof_number :: "jsval \<Rightarrow> bool" where
  "typeof_number (Number _) = True"
| "typeof_number _ = False"

text \<open>The comparisons below are only evaluated by the source after the \<^verbatim>\<open>typeof\<close> test
  succeeded (\<^verbatim>\<open>||\<close> and \<^verbatim>\<open>&&\<close> short-circuit), so their value on a non-number is never used.\<close>

fun val_lt :: "jsval \<Rightarrow> jsnum \<Rightarrow> bool" where
  "val_lt (Number a) b = num_lt a b"
| "val_lt _ _ = False"

fun val_ge :: "jsval \<Rightarrow> jsnum \<Rightarrow> bool" where
  "val_ge (Number a) b = num_ge a b"
| "val_ge _ _ = False"

text \<open>\<^verbatim>\<open>a !== b\<close> on primitive values: NaN differs from everything, itself included.\<close>

definition strict_ne :: "jsval \<Rightarrow> jsval \<Rightarrow> bool" where
  "strict_ne a b = (a \<noteq> b \<or> a = Number NaN)"

text \<open>What the specification calls a valid price: a non-negative finite number.\<close>

fun nonneg_finite :: "jsval \<Rightarrow> bool" where
  "nonneg_finite (Number (Fin r)) = (0 \<le> r)"
| "nonneg_finite _ = False"

text \<open>\<^verbatim>\<open>xs.slice(0, n)\<close> for an integer \<open>n\<close>: a negative \<open>n\<close> counts from the end.\<close>

definition slice0 :: "'a list \<Rightarrow> int \<Rightarrow> 'a list" where
  "slice0 xs n = (if 0 \<le> n then take (nat n) xs else take (length xs - nat (- n)) xs)"

text \<open>\<^verbatim>\<open>xs.join(', ')\<close>.\<close>

fun join_comma :: "string list \<Rightarrow> string" where
  "join_comma [] = []"
| "join_comma [x] = x"
| "join_comma (x # y # ys) = x @ '', '' @ join_comma (y # ys)"

text \<open>\<^verbatim>\<open>a + b\<close> on numbers; sums of finite values are taken exactly, as they are for the
  integers a loop index runs through.\<close>

fun num_add :: "jsnum \<Rightarrow> jsnum \<Rightarrow> jsnum" where
  "num_add NaN _ = NaN"
| "num_add _ NaN = NaN"
| "num_add (Fin a) (Fin b) = Fin (a + b)"
| "num_add (Fin _) PosInf = PosInf"
| "num_add (Fin _) NegInf = NegInf"
| "num_add PosInf NegInf = NaN"
| "num_add PosInf _ = PosInf"
| "num_add NegInf PosInf = NaN"
| "num_add NegInf _ = NegInf"

text \<open>The position an argument of \<^verbatim>\<open>slice\<close> denotes in an array of length \<open>len\<close>: NaN is 0, a
  fraction is truncated towards 0, a negative number counts from the end, and the result
  is clamped to the array.\<close>

fun sliceIndex :: "nat \<Rightarrow> jsnum \<Rightarrow> nat" where
  "sliceIndex len NaN = 0"
| "sliceIndex len PosInf = len"
| "sliceIndex len NegInf = 0"
| "sliceIndex len (Fin r) =
     (let k = (if 0 \<le> r then \<lfloor>r\<rfloor> else \<lceil>r\<rceil>)
      in if k < 0 then nat (int len + k) else min (nat k) len)"

text \<open>\<^verbatim>\<open>xs.slice(a, b)\<close> for numbers \<open>a\<close> and \<open>b\<close>.\<close>

definition js_slice :: "'a list \<Rightarrow> jsnum \<Rightarrow> jsnum \<Rightarrow> 'a list" where
  "js_slice xs a b =
     (let k = sliceIndex (length xs) a; final = sliceIndex (length xs) b
      in take (final - k) (drop k xs))"

section \<open>Data model (types/index.ts)\<close>

record FinaInventoryItem =
  inv_id :: int
  rest :: int
  store_id :: int

record FinaProductField =
  field :: string
  fvalue :: string

text \<open>\<open>add_fields\<close> is \<open>None\<close> when the record carries no array there.\<close>

record FinaProductDetail =
  det_id :: int
  title :: string
  det_price :: jsval
  add_fields :: "FinaProductField list option"

record WoltInventoryItem =
  inv_sku :: string
  inventory :: int

text \<open>The optional fields \<^verbatim>\<open>discounted_price\<close> and \<^verbatim>\<open>vat_percentage\<close> are never set by the
  code modelled here. \<open>item_enabled = None\<close> and \<open>item_price = Undefined\<close> are absent fields.\<close>

record WoltItemUpdate =
  item_sku :: string
  item_enabled :: "bool option"
  item_price :: jsval

text \<open>One entry of \<^verbatim>\<open>SyncState\<close>; \<open>syncedToWolt\<close> is the ad-hoc flag the hybrid path sets
  (\<open>False\<close> when the property is absent).\<close>

record StateEntry =
  quantity :: int
  enabled :: bool
  price :: jsval
  lastSeen :: int
  syncedToWolt :: bool

section \<open>PriorityScorer (core/priorityScorer.ts)\<close>

record PriorityConfig =
  inStockWeight :: int
  highStockWeight :: int
  highStockThreshold :: int
  highValueWeight :: int
  highValueThreshold :: rat
  lowStockWeight :: int
  lowStockThreshold :: int

text \<open>The constructor's defaults, used when no environment variable overrides them.\<close>

definition defaultPriorityConfig :: PriorityConfig where
  "defaultPriorityConfig =
     \<lparr> inStockWeight = 100, highStockWeight = 20, highStockThreshold = 50,
       highValueWeight = 15, highValueThreshold = 50,
       lowStockWeight = 10, lowStockThreshold = 5 \<rparr>"

definition calculatePriority ::
  "PriorityConfig \<Rightarrow> FinaInventoryItem \<Rightarrow> FinaProductDetail \<Rightarrow> int \<times> string" where
  "calculatePriority cfg item detail =
     (if \<not> typeof_number (det_price detail) \<or> val_lt (det_price detail) (Fin 0)
      then (0, ''invalid-price'')
      else if \<not> (rest item > 0) then (0, ''out-of-stock'')
      else
        let score = inStockWeight cfg;
            reasons = [''in-stock''];
            (score, reasons) =
              (if rest item \<ge> highStockThreshold cfg
               then (score + highStockWeight cfg, reasons @ [''high-stock''])
               else (score, reasons));
            (score, reasons) =
              (if rest item > 0 \<and> rest item \<le> lowStockThreshold cfg
               then (score + lowStockWeight cfg, reasons @ [''low-stock''])
               else (score, reasons));
            (score, reasons) =
              (if val_ge (det_price detail) (Fin (highValueThreshold cfg))
               then (score + highValueWeight cfg, reasons @ [''high-value''])
               else (score, reasons))
        in (score, join_comma reasons))"


text \<open>\<^verbatim>\<open>new Map(pairs).get(k)\<close>: the last pair with the key wins.\<close>

definition map_get :: "('k \<times> 'v) list \<Rightarrow> 'k \<Rightarrow> 'v option" where
  "map_get ps k = map_of (rev ps) k"




section \<open>FinaAdapter.mapToWoltSku (adapters/fina.ts)\<close>

text \<open>The SKU of a product is the value of its first \<^verbatim>\<open>usr_column_514\<close> field, when that
  value is not empty.\<close>

definition skuPairs :: "FinaProductDetail list \<Rightarrow> (int \<times> string) list" where
  "skuPairs details =
     concat (map (\<lambda>product.
       (case add_fields product of
          None \<Rightarrow> []
        | Some fs \<Rightarrow>
            (case find (\<lambda>f. field f = ''usr_column_514'') fs of
               None \<Rightarrow> []
             | Some woltField \<Rightarrow>
                 if fvalue woltField \<noteq> [] then [(det_id product, fvalue woltField)] else [])))
       details)"

definition mapToWoltSku :: "FinaProductDetail list \<Rightarrow> int \<Rightarrow> string option" where
  "mapToWoltSku details = map_get (skuPairs details)"

section \<open>HybridSyncOrchestrator.prioritySync (core/hybridSync.ts)\<close>



text \<open>The prices \<^verbatim>\<open>calculatePriority\<close> turns away: everything that is not a number, and the
  negative numbers. NaN and \<open>+Infinity\<close> pass its test.\<close>

fun scorer_rejects :: "jsval \<Rightarrow> bool" where
  "scorer_rejects (Number (Fin r)) = (r < 0)"
| "scorer_rejects (Number NegInf) = True"
| "scorer_rejects (Number PosInf) = False"
| "scorer_rejects (Number NaN) = False"
| "scorer_rejects _ = True"

section \<open>Environment variables and parseInt\<close>

text \<open>\<^verbatim>\<open>process.env\<close>: a variable is a string or is not set.\<close>

type_synonym env = "string \<Rightarrow> string option"

text \<open>\<^verbatim>\<open>process.env.X || d\<close>: an unset or empty variable gives the default.\<close>

definition env_or :: "env \<Rightarrow> string \<Rightarrow> string \<Rightarrow> string" where
  "env_or e k d = (case e k of None \<Rightarrow> d | Some v \<Rightarrow> if v = [] then d else v)"

definition is_digit :: "char \<Rightarrow> bool" where
  "is_digit c = (c \<in> set ''0123456789'')"

definition digit_val :: "char \<Rightarrow> int" where
  "digit_val c = int (of_char c) - 48"

definition is_space :: "char \<Rightarrow> bool" where
  "is_space c = (of_char c \<in> {9, 10, 11, 12, 13, 32 :: nat})"

text \<open>The value of a string of decimal digits.\<close>

definition digits_val :: "string \<Rightarrow> int" where
  "digits_val ds = foldl (\<lambda>acc c. 10 * acc + digit_val c) 0 ds"

text \<open>\<^verbatim>\<open>parseInt(s, 10)\<close>: leading white space, an optional sign, then the longest prefix of
  digits; NaN when there is no digit.\<close>

definition parseInt :: "string \<Rightarrow> jsnum" where
  "parseInt s =
     (let t = dropWhile is_space s;
          (neg, u) = (case t of
                        c # r \<Rightarrow> if c = CHR ''-'' then (True, r)
                                  else if c = CHR ''+'' then (False, r) else (False, t)
                      | [] \<Rightarrow> (False, t));
          ds = takeWhile is_digit u
      in if ds = [] then NaN
         else Fin (of_int (if neg then - digits_val ds else digits_val ds)))"

section \<open>AdaptiveBatcher (utils/adaptiveBatcher.ts)\<close>

text \<open>Batch sizes are results of \<^verbatim>\<open>parseInt\<close>, hence numbers that may be NaN.\<close>

record AdaptiveBatchConfig =
  currentBatchSize :: jsnum
  minBatchSize :: jsnum
  maxBatchSize :: jsnum
  successStreak :: int
  failureStreak :: int
  lastRateLimitAt :: int
  optimalBatchSize :: jsnum
  totalRequests :: int
  totalRateLimits :: int

text \<open>The batcher's per-venue table, loaded from \<^verbatim>\<open>state/adaptive-batch.json\<close> by the
  constructor; a venue without persisted state has no entry.\<close>

type_synonym batcher = "string \<Rightarrow> AdaptiveBatchConfig option"

definition initConfig ::
  "env \<Rightarrow> batcher \<Rightarrow> string \<Rightarrow> AdaptiveBatchConfig \<times> batcher" where
  "initConfig e cfgs venueId =
     (let initialBatchSize = parseInt (env_or e ''ADAPTIVE_INITIAL_BATCH_SIZE'' ''1000'');
          minBatch = parseInt (env_or e ''ADAPTIVE_MIN_BATCH_SIZE'' ''10'');
          maxBatch = parseInt (env_or e ''ADAPTIVE_MAX_BATCH_SIZE'' ''5000'');
          config = \<lparr> currentBatchSize = initialBatchSize, minBatchSize = minBatch,
                     maxBatchSize = maxBatch, successStreak = 0, failureStreak = 0,
                     lastRateLimitAt = 0, optimalBatchSize = initialBatchSize,
                     totalRequests = 0, totalRateLimits = 0 \<rparr>
      in (config, cfgs(venueId \<mapsto> config)))"

definition getCurrentBatchSize :: "env \<Rightarrow> batcher \<Rightarrow> string \<Rightarrow> jsnum \<times> batcher" where
  "getCurrentBatchSize e cfgs venueId =
     (case cfgs venueId of
        Some config \<Rightarrow> (currentBatchSize config, cfgs)
      | None \<Rightarrow> (let (config, cfgs') = initConfig e cfgs venueId
                 in (currentBatchSize config, cfgs')))"

section \<open>StateManager.loadState (core/state.ts)\<close>

text \<open>A parsed JSON document.\<close>

datatype json =
  JNull | JBool bool | JNumber jsnum | JString string | JArray "json list"
  | JObject "(string \<times> json) list"

text \<open>A file on disk: \<^verbatim>\<open>fs.readJson\<close> either throws (the file cannot be read or is not
  JSON) or returns the parsed document.\<close>

datatype filecontent = Unreadable | Content json

datatype path = Primary | Backup

text \<open>The two state files of one store; \<open>None\<close> is an absent file.\<close>

record statefiles =
  primaryFile :: "filecontent option"
  backupFile :: "filecontent option"

datatype fsop = PathExists path | ReadJson path

definition fileAt :: "statefiles \<Rightarrow> path \<Rightarrow> filecontent option" where
  "fileAt fs p = (case p of Primary \<Rightarrow> primaryFile fs | Backup \<Rightarrow> backupFile fs)"

text \<open>\<^verbatim>\<open>fs.pathExists\<close> never rejects.\<close>

definition pathExists :: "statefiles \<Rightarrow> path \<Rightarrow> bool" where
  "pathExists fs p = (fileAt fs p \<noteq> None)"

text \<open>\<^verbatim>\<open>fs.readJson\<close>: \<open>Inl\<close> is the exception thrown.\<close>

definition readJson :: "statefiles \<Rightarrow> path \<Rightarrow> string + json" where
  "readJson fs p =
     (case fileAt fs p of
        None \<Rightarrow> Inl ''ENOENT''
      | Some Unreadable \<Rightarrow> Inl ''Unexpected token''
      | Some (Content j) \<Rightarrow> Inr j)"

text \<open>\<^verbatim>\<open>obj[k]\<close> on a parsed object; \<open>None\<close> is \<^verbatim>\<open>undefined\<close>.\<close>

definition getProp :: "(string \<times> json) list \<Rightarrow> string \<Rightarrow> json option" where
  "getProp props k = map_of props k"

text \<open>\<^verbatim>\<open>Number.isFinite(v)\<close> on a property that may be absent.\<close>

fun isFinite :: "json option \<Rightarrow> bool" where
  "isFinite (Some (JNumber (Fin _))) = True"
| "isFinite _ = False"

fun isBoolean :: "json option \<Rightarrow> bool" where
  "isBoolean (Some (JBool _)) = True"
| "isBoolean _ = False"

text \<open>\<^verbatim>\<open>sku.trim() === ''\<close>, for the ASCII white space (the Unicode spaces that \<^verbatim>\<open>trim\<close> also
  removes are not modelled).\<close>

definition blank :: "string \<Rightarrow> bool" where
  "blank s = list_all is_space s"

text \<open>The test of one entry in \<^verbatim>\<open>isValidState\<close>.\<close>

fun validEntry :: "string \<times> json \<Rightarrow> bool" where
  "validEntry (sku, JObject props) =
     (if blank sku then False
      else if \<not> isFinite (getProp props ''quantity'') \<or> \<not> isBoolean (getProp props ''enabled'')
      then False
      else if getProp props ''price'' \<noteq> None \<and> \<not> isFinite (getProp props ''price'') then False
      else if getProp props ''lastSeen'' \<noteq> None \<and> \<not> isFinite (getProp props ''lastSeen'')
      then False
      else True)"
| "validEntry (sku, _) = False"

fun isValidState :: "json \<Rightarrow> bool" where
  "isValidState (JObject entries) = list_all validEntry entries"
| "isValidState _ = False"

text \<open>\<^verbatim>\<open>readStateFile\<close> catches every exception of the read and returns \<^verbatim>\<open>null\<close> (\<open>None\<close>)
  for it, as for a document that fails validation.\<close>

definition readStateFile :: "statefiles \<Rightarrow> path \<Rightarrow> json option" where
  "readStateFile fs p =
     (case readJson fs p of
        Inl err \<Rightarrow> None
      | Inr data \<Rightarrow> if \<not> isValidState data then None else Some data)"

text \<open>
  \<^verbatim>\<open>loadState\<close>: the result (\<open>Inl\<close> would be an exception escaping the function) and the
  file operations issued, in order.
\<close>

definition loadState :: "statefiles \<Rightarrow> (string + json) \<times> fsop list" where
  "loadState fs =
     (if pathExists fs Primary then
        (case readStateFile fs Primary of
           Some primary \<Rightarrow> (Inr primary, [PathExists Primary, ReadJson Primary])
         | None \<Rightarrow>
             if pathExists fs Backup then
               (case readStateFile fs Backup of
                  Some backup \<Rightarrow>
                    (Inr backup,
                     [PathExists Primary, ReadJson Primary, PathExists Backup, ReadJson Backup])
                | None \<Rightarrow>
                    (Inr (JObject []),
                     [PathExists Primary, ReadJson Primary, PathExists Backup, ReadJson Backup]))
             else (Inr (JObject []), [PathExists Primary, ReadJson Primary, PathExists Backup]))
      else (Inr (JObject []), [PathExists Primary]))"

text \<open>A file that \<^verbatim>\<open>readStateFile\<close> accepts: it parses and passes \<^verbatim>\<open>isValidState\<close>.\<close>

fun validFile :: "filecontent option \<Rightarrow> bool" where
  "validFile (Some (Content j)) = isValidState j"
| "validFile _ = False"

section \<open>SyncEngine (core/sync.ts)\<close>

text \<open>
  \<^verbatim>\<open>SyncState\<close> and the \<^verbatim>\<open>Map\<close> of SKU data are association lists in insertion order with
  distinct keys; assigning to a key (\<open>AList.update\<close>) replaces the value in place or appends
  a new pair, as a JavaScript object and a \<^verbatim>\<open>Map\<close> do.
\<close>

type_synonym SyncState = "(string \<times> StateEntry) list"

record SkuData =
  data_quantity :: int
  data_price :: jsval
  data_enabled :: bool

type_synonym WoltData = "(string \<times> SkuData) list"

text \<open>One round of the loop over \<^verbatim>\<open>details\<close> that fills \<^verbatim>\<open>woltData\<close>.\<close>

definition addProduct ::
  "(int \<Rightarrow> int option) \<Rightarrow> (int \<Rightarrow> string option) \<Rightarrow> WoltData \<Rightarrow> FinaProductDetail \<Rightarrow> WoltData"
  where
  "addProduct stockMap finaIdToWoltSku woltData product =
     (case finaIdToWoltSku (det_id product) of
        None \<Rightarrow> woltData
      | Some sku \<Rightarrow>
          if sku = [] then woltData
          else
            let q = (case stockMap (det_id product) of None \<Rightarrow> 0 | Some r \<Rightarrow> r);
                en = (q > 0)
            in (case map_of woltData sku of
                  None \<Rightarrow>
                    AList.update sku
                      \<lparr> data_quantity = q, data_price = det_price product, data_enabled = en \<rparr>
                      woltData
                | Some existing \<Rightarrow>
                    AList.update sku
                      \<lparr> data_quantity = data_quantity existing + q,
                        data_price = det_price product,
                        data_enabled = (data_quantity existing + q > 0) \<rparr>
                      woltData))"

text \<open>Step 3 of \<^verbatim>\<open>runWithOptions\<close>: the stock map, the SKU map and the view per SKU.\<close>

definition buildWoltData :: "FinaInventoryItem list \<Rightarrow> FinaProductDetail list \<Rightarrow> WoltData" where
  "buildWoltData inventoryItems details =
     foldl (addProduct (map_get (map (\<lambda>i. (inv_id i, rest i)) inventoryItems))
                       (mapToWoltSku details))
       [] details"

text \<open>The accumulators of step 4 and step 5.\<close>

record Changes =
  inventoryUpdates :: "WoltInventoryItem list"
  itemUpdates :: "WoltItemUpdate list"
  newState :: SyncState
  newItemCount :: nat
  missingItemCount :: nat

text \<open>One round of the loop of step 4 (detect changes).\<close>

definition diffSku ::
  "bool \<Rightarrow> bool \<Rightarrow> int \<Rightarrow> SyncState \<Rightarrow> Changes \<Rightarrow> string \<times> SkuData \<Rightarrow> Changes" where
  "diffSku forceFull bootstrap now previousState acc entry =
     (let sku = fst entry; d = snd entry;
          acc = acc\<lparr> newState := AList.update sku
                   \<lparr> quantity = data_quantity d, enabled = data_enabled d,
                     price = data_price d, lastSeen = now, syncedToWolt = False \<rparr>
                   (newState acc) \<rparr>;
          both = (\<lambda>a. a\<lparr> inventoryUpdates := inventoryUpdates a @
                              [\<lparr> inv_sku = sku, inventory = data_quantity d \<rparr>],
                          itemUpdates := itemUpdates a @
                              [\<lparr> item_sku = sku, item_enabled = Some (data_enabled d),
                                 item_price = data_price d \<rparr>] \<rparr>)
      in if forceFull \<and> \<not> bootstrap then
           (case map_of previousState sku of
              None \<Rightarrow> both (acc\<lparr> newItemCount := newItemCount acc + 1 \<rparr>)
            | Some prev \<Rightarrow> both acc)
         else
           (case map_of previousState sku of
              None \<Rightarrow>
                (let acc = acc\<lparr> newItemCount := newItemCount acc + 1 \<rparr>
                 in if \<not> bootstrap then both acc else acc)
            | Some prev \<Rightarrow>
                (let acc = (if quantity prev \<noteq> data_quantity d
                            then acc\<lparr> inventoryUpdates := inventoryUpdates acc @
                                   [\<lparr> inv_sku = sku, inventory = data_quantity d \<rparr>] \<rparr>
                            else acc)
                 in if enabled prev \<noteq> data_enabled d \<or> strict_ne (price prev) (data_price d)
                    then acc\<lparr> itemUpdates := itemUpdates acc @
                           [\<lparr> item_sku = sku, item_enabled = Some (data_enabled d),
                              item_price = data_price d \<rparr>] \<rparr>
                    else acc)))"

text \<open>One round of the loop of step 5 (missing items).\<close>

definition missingSku ::
  "bool \<Rightarrow> int \<Rightarrow> WoltData \<Rightarrow> Changes \<Rightarrow> string \<times> StateEntry \<Rightarrow> Changes" where
  "missingSku bootstrap now woltData acc entry =
     (let sku = fst entry; prev = snd entry
      in if map_of woltData sku = None then
           (let acc = (if \<not> bootstrap
                       then acc\<lparr> inventoryUpdates := inventoryUpdates acc @
                              [\<lparr> inv_sku = sku, inventory = 0 \<rparr>],
                            itemUpdates := itemUpdates acc @
                              [\<lparr> item_sku = sku, item_enabled = Some False,
                                 item_price = Undefined \<rparr>] \<rparr>
                       else acc)
            in acc\<lparr> newState := AList.update sku
                       \<lparr> quantity = 0, enabled = False, price = price prev, lastSeen = now,
                         syncedToWolt = False \<rparr> (newState acc),
                     missingItemCount := missingItemCount acc + 1 \<rparr>)
         else acc)"

text \<open>Steps 4 and 5: the diff stage.\<close>

definition detectChanges ::
  "bool \<Rightarrow> bool \<Rightarrow> int \<Rightarrow> SyncState \<Rightarrow> WoltData \<Rightarrow> Changes" where
  "detectChanges forceFull bootstrap now previousState woltData =
     foldl (missingSku bootstrap now woltData)
       (foldl (diffSku forceFull bootstrap now previousState)
          \<lparr> inventoryUpdates = [], itemUpdates = [], newState = [], newItemCount = 0,
            missingItemCount = 0 \<rparr>
          woltData)
       previousState"

text \<open>What one round of step 4 appends for an entry of the view, and what one round of
  step 5 appends for an entry of the previous state.\<close>

definition emptyChanges :: Changes where
  "emptyChanges = \<lparr> inventoryUpdates = [], itemUpdates = [], newState = [], newItemCount = 0,
     missingItemCount = 0 \<rparr>"

definition itemUpdatesFor :: "string \<Rightarrow> Changes \<Rightarrow> WoltItemUpdate list" where
  "itemUpdatesFor sku c = filter (\<lambda>u. item_sku u = sku) (itemUpdates c)"

definition inventoryUpdatesFor :: "string \<Rightarrow> Changes \<Rightarrow> WoltInventoryItem list" where
  "inventoryUpdatesFor sku c = filter (\<lambda>u. inv_sku u = sku) (inventoryUpdates c)"

section \<open>Notions and sample data for the diff stage\<close>

text \<open>
  Sample data with one SKU of each kind: SKU A is known with quantity 10 and now
  has 5, SKU B is new and out of stock, SKU Z is known and no longer in the feed.
\<close>

definition sample_previousState :: SyncState where
  "sample_previousState =
     [(''A'', \<lparr> quantity = 10, enabled = True, price = Number (Fin 100), lastSeen = 1,
               syncedToWolt = False \<rparr>),
      (''Z'', \<lparr> quantity = 4, enabled = True, price = Number (Fin 50), lastSeen = 1,
               syncedToWolt = False \<rparr>)]"

definition sample_inventory :: "FinaInventoryItem list" where
  "sample_inventory =
     [\<lparr> inv_id = 1, rest = 5, store_id = 1 \<rparr>, \<lparr> inv_id = 2, rest = 0, store_id = 1 \<rparr>]"

definition sample_details :: "FinaProductDetail list" where
  "sample_details =
     [\<lparr> det_id = 1, title = ''a'', det_price = Number (Fin 100),
        add_fields = Some [\<lparr> field = ''usr_column_514'', fvalue = ''A'' \<rparr>] \<rparr>,
      \<lparr> det_id = 2, title = ''b'', det_price = Number (Fin 200),
        add_fields = Some [\<lparr> field = ''usr_column_514'', fvalue = ''B'' \<rparr>] \<rparr>]"

text \<open>A previous state for the same feed in which SKU A has the current quantity but another
  price, and SKU B the current quantity and price but was enabled.\<close>

definition repriced_previousState :: SyncState where
  "repriced_previousState =
     [(''A'', \<lparr> quantity = 5, enabled = True, price = Number (Fin 90), lastSeen = 1,
               syncedToWolt = False \<rparr>),
      (''B'', \<lparr> quantity = 0, enabled = True, price = Number (Fin 200), lastSeen = 1,
               syncedToWolt = False \<rparr>)]"

section \<open>SyncEngine: batch configuration\<close>

text \<open>Decimal rendering of a store id, as the template string \<^verbatim>\<open>STORE_${storeId}_\<close> does for
  an integer.\<close>

fun show_nat :: "nat \<Rightarrow> string" where
  "show_nat n =
     (if n < 10 then [char_of (48 + n)] else show_nat (n div 10) @ [char_of (48 + n mod 10)])"

definition show_int :: "int \<Rightarrow> string" where
  "show_int i = (if i < 0 then CHR ''-'' # show_nat (nat (- i)) else show_nat (nat i))"

text \<open>\<^verbatim>\<open>Number.isFinite(x) && x > 0 ? x : d\<close> for a result of \<^verbatim>\<open>parseInt\<close> (an integer or
  NaN).\<close>

fun positiveOr :: "jsnum \<Rightarrow> int \<Rightarrow> int" where
  "positiveOr (Fin r) d = (if r > 0 then \<lfloor>r\<rfloor> else d)"
| "positiveOr _ d = d"

record SyncEngine =
  defaultBatchSize :: int
  defaultBatchDelayMs :: int
  defaultFirstSyncBatchSize :: int
  defaultFirstSyncBatchDelayMs :: int

text \<open>The constructor.\<close>

definition newSyncEngine :: "env \<Rightarrow> SyncEngine" where
  "newSyncEngine e =
     \<lparr> defaultBatchSize = positiveOr (parseInt (env_or e ''WOLT_BATCH_SIZE'' '''')) 50,
       defaultBatchDelayMs = positiveOr (parseInt (env_or e ''WOLT_BATCH_DELAY_MS'' '''')) 2000,
       defaultFirstSyncBatchSize =
         positiveOr (parseInt (env_or e ''WOLT_FIRST_SYNC_BATCH_SIZE'' '''')) 1,
       defaultFirstSyncBatchDelayMs =
         positiveOr (parseInt (env_or e ''WOLT_FIRST_SYNC_BATCH_DELAY_MS'' '''')) 10000 \<rparr>"

definition readPositiveInt :: "env \<Rightarrow> string \<Rightarrow> int option" where
  "readPositiveInt e envKey =
     (case e envKey of
        None \<Rightarrow> None
      | Some raw \<Rightarrow>
          if blank raw then None
          else (case parseInt raw of
                  Fin r \<Rightarrow> if r > 0 then Some \<lfloor>r\<rfloor> else None
                | _ \<Rightarrow> None))"

text \<open>\<^verbatim>\<open>a ?? b\<close>.\<close>

definition orElse :: "'a option \<Rightarrow> 'a \<Rightarrow> 'a" where
  "orElse a b = (case a of None \<Rightarrow> b | Some v \<Rightarrow> v)"

text \<open>The result is the pair (batchSize, batchDelayMs).\<close>

definition resolveBatchConfig :: "SyncEngine \<Rightarrow> env \<Rightarrow> int \<Rightarrow> bool \<Rightarrow> int \<times> int" where
  "resolveBatchConfig eng e storeId isFirstSync =
     (let storePrefix = ''STORE_'' @ show_int storeId @ ''_''
      in if isFirstSync then
           (orElse (readPositiveInt e (storePrefix @ ''WOLT_FIRST_SYNC_BATCH_SIZE''))
              (defaultFirstSyncBatchSize eng),
            orElse (readPositiveInt e (storePrefix @ ''WOLT_FIRST_SYNC_BATCH_DELAY_MS''))
              (defaultFirstSyncBatchDelayMs eng))
         else
           (orElse (readPositiveInt e (storePrefix @ ''WOLT_BATCH_SIZE''))
              (defaultBatchSize eng),
            orElse (readPositiveInt e (storePrefix @ ''WOLT_BATCH_DELAY_MS''))
              (defaultBatchDelayMs eng)))"

section \<open>SyncEngine: the run\<close>

record SyncOptions =
  dryRun :: bool
  limit :: "int option"
  forceFullSync :: bool
  bootstrapState :: bool

text \<open>What a run does to the outside world, in order: a call of the marketplace adapter
  (\<^verbatim>\<open>updateItems\<close> or \<^verbatim>\<open>updateInventory\<close>, with whether it returned or threw) and a call of
  \<^verbatim>\<open>saveState\<close>, the only writer of the per-store state file.\<close>

datatype payload = Items "WoltItemUpdate list" | Inventory "WoltInventoryItem list"

datatype event = WoltCall payload bool | SaveState SyncState

text \<open>How a run ends: it returns after recording success, it returns after recording an
  error, or it throws.\<close>

datatype outcome = Completed | Aborted string | Thrown string

text \<open>\<^verbatim>\<open>limit\<close> used as a condition: \<^verbatim>\<open>undefined\<close> and 0 are falsy.\<close>

definition limitSet :: "int option \<Rightarrow> bool" where
  "limitSet l = (case l of None \<Rightarrow> False | Some n \<Rightarrow> n \<noteq> 0)"

text \<open>The truncation of one array under \<^verbatim>\<open>if (limit && limit > 0)\<close>.\<close>

definition applyLimit :: "int option \<Rightarrow> 'a list \<Rightarrow> 'a list" where
  "applyLimit l xs =
     (case l of
        None \<Rightarrow> xs
      | Some n \<Rightarrow> if n \<noteq> 0 \<and> n > 0 then (if int (length xs) > n then slice0 xs n else xs)
                  else xs)"

text \<open>The slices \<^verbatim>\<open>xs.slice(i, i + n)\<close> for \<open>i = 0, n, 2n, ...\<close> below the length. The batch
  size is never 0 (see \<open>resolveBatchConfig_positive\<close>).\<close>

fun chunks :: "nat \<Rightarrow> 'a list \<Rightarrow> 'a list list" where
  "chunks n xs = (if n = 0 \<or> xs = [] then [] else take n xs # chunks n (drop n xs))"

declare chunks.simps [simp del]

text \<open>The state threaded through the two push phases: the number of adapter calls made, the
  (mutated) \<^verbatim>\<open>previousState\<close>, and the events so far.\<close>

record PushState =
  callCount :: nat
  prevState :: SyncState
  events :: "event list"

definition updateSyncedState ::
  "bool \<Rightarrow> int option \<Rightarrow> SyncState \<Rightarrow> string list \<Rightarrow> PushState \<Rightarrow> PushState" where
  "updateSyncedState dry lmt newSt syncedSkus st =
     (if dry \<or> limitSet lmt then st
      else
        let prev' = foldl (\<lambda>prev sku. case map_of newSt sku of
                                          Some current \<Rightarrow> AList.update sku current prev
                                        | None \<Rightarrow> prev)
                      (prevState st) syncedSkus
        in st\<lparr> prevState := prev', events := events st @ [SaveState prev'] \<rparr>)"

fun skusOf :: "payload \<Rightarrow> string list" where
  "skusOf (Items batch) = map item_sku batch"
| "skusOf (Inventory batch) = map inv_sku batch"

text \<open>The loop over the batches of one phase. \<open>woltOk k\<close> tells whether the \<open>k\<close>-th adapter
  call of the run returns (the adapter retries inside; a call that throws ends the run).\<close>

fun sendBatches ::
  "(nat \<Rightarrow> bool) \<Rightarrow> bool \<Rightarrow> int option \<Rightarrow> SyncState \<Rightarrow> payload list \<Rightarrow> PushState \<Rightarrow>
   string option \<times> PushState" where
  "sendBatches ok dry lmt newSt [] st = (None, st)"
| "sendBatches ok dry lmt newSt (batch # batches) st =
     (if ok (callCount st) then
        sendBatches ok dry lmt newSt batches
          (updateSyncedState dry lmt newSt (skusOf batch)
             (st\<lparr> callCount := callCount st + 1,
                  events := events st @ [WoltCall batch True] \<rparr>))
      else (Some ''Wolt API error'',
            st\<lparr> callCount := callCount st + 1,
                events := events st @ [WoltCall batch False] \<rparr>))"

text \<open>Everything a run reads from outside: the store, what \<^verbatim>\<open>loadState\<close> returns, the two
  SoT responses (\<open>Inl\<close> is an exception), the clock, the marketplace and the environment.\<close>

record RunInput =
  storeId :: int
  storeEnabled :: bool
  loadedState :: SyncState
  inventoryResult :: "string + FinaInventoryItem list"
  detailsResult :: "string + FinaProductDetail list"
  clock :: int
  woltOk :: "nat \<Rightarrow> bool"
  environment :: env

text \<open>Phase 1 (items API) and phase 2 (inventory API): nothing is sent in a dry run or for
  an empty array.\<close>

definition phase1 ::
  "RunInput \<Rightarrow> SyncOptions \<Rightarrow> nat \<Rightarrow> SyncState \<Rightarrow> WoltItemUpdate list \<Rightarrow> PushState \<Rightarrow>
   string option \<times> PushState" where
  "phase1 inp opts effectiveBatchSize newSt itemUpd st =
     (if itemUpd \<noteq> [] \<and> \<not> dryRun opts
      then sendBatches (woltOk inp) (dryRun opts) (limit opts) newSt
             (map Items (chunks effectiveBatchSize itemUpd)) st
      else (None, st))"

definition phase2 ::
  "RunInput \<Rightarrow> SyncOptions \<Rightarrow> nat \<Rightarrow> SyncState \<Rightarrow> WoltInventoryItem list \<Rightarrow> PushState \<Rightarrow>
   string option \<times> PushState" where
  "phase2 inp opts effectiveBatchSize newSt invUpd st =
     (if invUpd \<noteq> [] \<and> \<not> dryRun opts
      then sendBatches (woltOk inp) (dryRun opts) (limit opts) newSt
             (map Inventory (chunks effectiveBatchSize invUpd)) st
      else (None, st))"

text \<open>
  The second half of \<^verbatim>\<open>runWithOptions\<close>, from "Apply Limit" to "Save Final State": the two
  arrays are truncated, pushed in two phases in batches, and the new state is saved at the
  end unless the run is dry or limited. An exception of a phase ends the run.
\<close>

definition executeSync ::
  "RunInput \<Rightarrow> SyncOptions \<Rightarrow> bool \<Rightarrow> Changes \<Rightarrow> outcome \<times> event list" where
  "executeSync inp opts useFirstSyncBatch c =
     (let itemUpd = applyLimit (limit opts) (itemUpdates c);
          invUpd = applyLimit (limit opts) (inventoryUpdates c);
          effectiveBatchSize =
            nat (fst (resolveBatchConfig (newSyncEngine (environment inp)) (environment inp)
                        (storeId inp) useFirstSyncBatch));
          st0 = \<lparr> callCount = 0, prevState = loadedState inp, events = [] \<rparr>
      in (case phase1 inp opts effectiveBatchSize (newState c) itemUpd st0 of
            (Some e, st1) \<Rightarrow> (Thrown e, events st1)
          | (None, st1) \<Rightarrow>
              (case phase2 inp opts effectiveBatchSize (newState c) invUpd st1 of
                 (Some e, st2) \<Rightarrow> (Thrown e, events st2)
               | (None, st2) \<Rightarrow>
                   (Completed,
                    if \<not> dryRun opts \<and> \<not> limitSet (limit opts)
                    then events st2 @ [SaveState (newState c)]
                    else events st2))))"

definition runWithOptions :: "RunInput \<Rightarrow> SyncOptions \<Rightarrow> outcome \<times> event list" where
  "runWithOptions inp opts =
     (if \<not> storeEnabled inp then (Completed, [])
      else
        let previousState = loadedState inp;
            isFirstSync = (length previousState = 0);
            forceFull = (if isFirstSync \<and> \<not> forceFullSync opts \<and> \<not> bootstrapState opts
                         then True else forceFullSync opts)
        in case inventoryResult inp of
             Inl err \<Rightarrow> (Thrown err, [])
           | Inr inventoryItems \<Rightarrow>
               if length inventoryItems = 0 then (Aborted ''No inventory returned'', [])
               else
                 (case detailsResult inp of
                    Inl err \<Rightarrow> (Thrown err, [])
                  | Inr details \<Rightarrow>
                      if length details < length inventoryItems
                      then (Thrown ''Partial product details received from Fina'', [])
                      else
                        let woltData = buildWoltData inventoryItems details;
                            c = detectChanges forceFull (bootstrapState opts) (clock inp)
                                  previousState woltData
                        in if bootstrapState opts
                           then (Completed,
                                 if \<not> dryRun opts then [SaveState (newState c)] else [])
                           else executeSync inp opts (isFirstSync \<or> forceFull) c))"

text \<open>The marketplace payloads a run sent (whatever the answer) and the states it handed to
  \<^verbatim>\<open>saveState\<close>.\<close>

fun marketplaceCalls :: "event list \<Rightarrow> payload list" where
  "marketplaceCalls [] = []"
| "marketplaceCalls (WoltCall p ok # evs) = p # marketplaceCalls evs"
| "marketplaceCalls (SaveState s # evs) = marketplaceCalls evs"

fun stateWrites :: "event list \<Rightarrow> SyncState list" where
  "stateWrites [] = []"
| "stateWrites (WoltCall p ok # evs) = stateWrites evs"
| "stateWrites (SaveState s # evs) = s # stateWrites evs"

fun payloadItems :: "payload \<Rightarrow> WoltItemUpdate list" where
  "payloadItems (Items batch) = batch"
| "payloadItems (Inventory batch) = []"

fun payloadInventory :: "payload \<Rightarrow> WoltInventoryItem list" where
  "payloadInventory (Items batch) = []"
| "payloadInventory (Inventory batch) = batch"

definition itemsSent :: "event list \<Rightarrow> WoltItemUpdate list" where
  "itemsSent evs = concat (map payloadItems (marketplaceCalls evs))"

definition inventorySent :: "event list \<Rightarrow> WoltInventoryItem list" where
  "inventorySent evs = concat (map payloadInventory (marketplaceCalls evs))"

section \<open>Notions and sample data for the run\<close>

text \<open>Sample input: the store of \<open>sample_previousState\<close>, every marketplace call succeeds,
  no environment variable is set.\<close>

definition sample_input :: RunInput where
  "sample_input =
     \<lparr> storeId = 7, storeEnabled = True, loadedState = sample_previousState,
       inventoryResult = Inr sample_inventory, detailsResult = Inr sample_details,
       clock = 1000, woltOk = (\<lambda>k. True), environment = (\<lambda>k. None) \<rparr>"

section \<open>HybridSyncOrchestrator: the writers of the state (core/hybridSync.ts)\<close>

text \<open>The loop over \<^verbatim>\<open>details\<close> that fills the state: the entry of a SKU is overwritten by
  each product that carries it.\<close>

fun bootstrapEntries ::
  "(int \<Rightarrow> int option) \<Rightarrow> (int \<Rightarrow> string option) \<Rightarrow> int \<Rightarrow> SyncState \<Rightarrow>
   FinaProductDetail list \<Rightarrow> SyncState" where
  "bootstrapEntries stockMap finaIdToWoltSku now state [] = state"
| "bootstrapEntries stockMap finaIdToWoltSku now state (product # products) =
     (case finaIdToWoltSku (det_id product) of
        None \<Rightarrow> bootstrapEntries stockMap finaIdToWoltSku now state products
      | Some sku \<Rightarrow>
          if sku = [] then bootstrapEntries stockMap finaIdToWoltSku now state products
          else
            let q = (case stockMap (det_id product) of None \<Rightarrow> 0 | Some r \<Rightarrow> r)
            in bootstrapEntries stockMap finaIdToWoltSku now
                 (AList.update sku
                    \<lparr> quantity = q, enabled = (q > 0), price = det_price product,
                      lastSeen = now, syncedToWolt = False \<rparr> state)
                 products)"

text \<open>
  The orchestrator's \<^verbatim>\<open>bootstrapState\<close>, given the two SoT responses (\<open>Inl\<close> is an exception)
  and the clock: it fetches, builds the state and saves it; the marketplace adapter is not
  used.
\<close>

definition bootstrapState_orchestrator ::
  "string + FinaInventoryItem list \<Rightarrow> string + FinaProductDetail list \<Rightarrow> int \<Rightarrow>
   outcome \<times> event list" where
  "bootstrapState_orchestrator inventoryFetch detailsFetch now =
     (case inventoryFetch of
        Inl err \<Rightarrow> (Thrown err, [])
      | Inr inventoryItems \<Rightarrow>
          (case detailsFetch of
             Inl err \<Rightarrow> (Thrown err, [])
           | Inr details \<Rightarrow>
               (Completed,
                [SaveState
                   (bootstrapEntries (map_get (map (\<lambda>i. (inv_id i, rest i)) inventoryItems))
                      (mapToWoltSku details) now [] details)])))"

text \<open>
  The loop of \<^verbatim>\<open>mergeWoltState\<close> over the items the marketplace lists, each given by its
  \<^verbatim>\<open>sku\<close> field (\<open>None\<close> when absent): an item marks the entry of its SKU as synced when
  the SKU is not empty and the loaded state has an entry for it. The result is the state
  the function saves.
\<close>

fun mergeWoltState :: "SyncState \<Rightarrow> string option list \<Rightarrow> SyncState" where
  "mergeWoltState state [] = state"
| "mergeWoltState state (itemSku # woltItems) =
     (case itemSku of
        None \<Rightarrow> mergeWoltState state woltItems
      | Some sku \<Rightarrow>
          if sku = [] then mergeWoltState state woltItems
          else (case map_of state sku of
                  None \<Rightarrow> mergeWoltState state woltItems
                | Some entry \<Rightarrow>
                    mergeWoltState (AList.update sku (entry\<lparr> syncedToWolt := True \<rparr>) state)
                      woltItems))"

text \<open>
  The loop at the end of \<^verbatim>\<open>prioritySync\<close> over \<^verbatim>\<open>syncedSkus\<close>, applied to the state loaded
  after the push: a SKU marks its entry as synced when the state has one. The result is
  the state the function saves.
\<close>

fun markSyncedSkus :: "SyncState \<Rightarrow> string list \<Rightarrow> SyncState" where
  "markSyncedSkus state [] = state"
| "markSyncedSkus state (sku # syncedSkus) =
     (case map_of state sku of
        None \<Rightarrow> markSyncedSkus state syncedSkus
      | Some entry \<Rightarrow>
          markSyncedSkus (AList.update sku (entry\<lparr> syncedToWolt := True \<rparr>) state) syncedSkus)"

section \<open>State entries and confirmed SKUs\<close>

text \<open>The SKUs of the payloads the marketplace acknowledged.\<close>

fun pushedSkus :: "event list \<Rightarrow> string set" where
  "pushedSkus [] = {}"
| "pushedSkus (WoltCall p ok # evs) = (if ok then set (skusOf p) else {}) \<union> pushedSkus evs"
| "pushedSkus (SaveState s # evs) = pushedSkus evs"

text \<open>
  \<open>savesConfirmed known evs\<close>: every state handed to \<^verbatim>\<open>saveState\<close> in \<open>evs\<close> has entries
  only for SKUs that are in \<open>known\<close> or were in a payload acknowledged earlier in \<open>evs\<close>.
\<close>

fun savesConfirmed :: "string set \<Rightarrow> event list \<Rightarrow> bool" where
  "savesConfirmed known [] = True"
| "savesConfirmed known (WoltCall p ok # evs) =
     savesConfirmed (if ok then known \<union> set (skusOf p) else known) evs"
| "savesConfirmed known (SaveState s # evs) =
     (fst ` set s \<subseteq> known \<and> savesConfirmed known evs)"

text \<open>The invariant of the push loops, relative to the SKUs known before the run.\<close>

definition pushInv :: "string set \<Rightarrow> PushState \<Rightarrow> bool" where
  "pushInv K st \<longleftrightarrow>
     savesConfirmed K (events st) \<and> fst ` set (prevState st) \<subseteq> K \<union> pushedSkus (events st)"

section \<open>BackgroundWorker.syncNextBatch (core/backgroundWorker.ts)\<close>

text \<open>The loop that collects the items not yet marked as synced.\<close>

fun unsyncedItems ::
  "bool \<Rightarrow> SyncState \<Rightarrow> (int \<Rightarrow> string option) \<Rightarrow> FinaProductDetail list \<Rightarrow>
   (int \<times> string) list" where
  "unsyncedItems skipIfInState state finaIdToWoltSku [] = []"
| "unsyncedItems skipIfInState state finaIdToWoltSku (product # products) =
     (case finaIdToWoltSku (det_id product) of
        None \<Rightarrow> unsyncedItems skipIfInState state finaIdToWoltSku products
      | Some sku \<Rightarrow>
          if sku = [] then unsyncedItems skipIfInState state finaIdToWoltSku products
          else if skipIfInState \<and>
                  (case map_of state sku of None \<Rightarrow> False | Some entry \<Rightarrow> syncedToWolt entry)
          then unsyncedItems skipIfInState state finaIdToWoltSku products
          else (det_id product, sku)
               # unsyncedItems skipIfInState state finaIdToWoltSku products)"

text \<open>The loop that builds the two payloads for the batch.\<close>

fun backgroundUpdates ::
  "(int \<Rightarrow> int option) \<Rightarrow> (int \<Rightarrow> FinaProductDetail option) \<Rightarrow> (int \<times> string) list \<Rightarrow>
   WoltItemUpdate list \<times> WoltInventoryItem list" where
  "backgroundUpdates stockMap detailMap [] = ([], [])"
| "backgroundUpdates stockMap detailMap ((finaId, sku) # batch) =
     (let (itemUpd, invUpd) = backgroundUpdates stockMap detailMap batch;
          q = (case stockMap finaId of None \<Rightarrow> 0 | Some r \<Rightarrow> r)
      in case detailMap finaId of
           None \<Rightarrow> (itemUpd, invUpd)
         | Some detail \<Rightarrow>
             (\<lparr> item_sku = sku, item_enabled = Some (q > 0), item_price = det_price detail \<rparr>
                # itemUpd,
              \<lparr> inv_sku = sku, inventory = q \<rparr> # invUpd))"

text \<open>The loop that marks the batch as synced in the state.\<close>

fun markSynced :: "int \<Rightarrow> SyncState \<Rightarrow> (int \<times> string) list \<Rightarrow> SyncState" where
  "markSynced now state [] = state"
| "markSynced now state ((finaId, sku) # batch) =
     (let entry = (case map_of state sku of
                     None \<Rightarrow> \<lparr> quantity = 0, enabled = False, price = Number (Fin 0),
                               lastSeen = now, syncedToWolt = False \<rparr>
                   | Some e \<Rightarrow> e)
      in markSynced now (AList.update sku (entry\<lparr> syncedToWolt := True \<rparr>) state) batch)"

text \<open>
  \<^verbatim>\<open>syncNextBatch\<close> for a batch in which every marketplace call succeeds and no stop is
  requested: the two payloads that are sent, and the state that is saved afterwards. \<open>None\<close>
  when nothing is left to sync.
\<close>

definition syncNextBatch ::
  "bool \<Rightarrow> int \<Rightarrow> int \<Rightarrow> SyncState \<Rightarrow> FinaInventoryItem list \<Rightarrow> FinaProductDetail list \<Rightarrow>
   (WoltItemUpdate list \<times> WoltInventoryItem list \<times> SyncState) option" where
  "syncNextBatch skipIfInState dailyLimit now state inventoryItems details =
     (let unsynced = unsyncedItems skipIfInState state (mapToWoltSku details) details
      in if length unsynced = 0 then None
         else
           let batchToSync = slice0 unsynced dailyLimit;
               (itemUpd, invUpd) =
                 backgroundUpdates (map_get (map (\<lambda>i. (inv_id i, rest i)) inventoryItems))
                   (map_get (map (\<lambda>d. (det_id d, d)) details)) batchToSync
           in Some (itemUpd, invUpd, markSynced now state batchToSync))"

text \<open>
  How a push loop of the worker ends: its condition became false, it met \<^verbatim>\<open>break\<close>, a
  marketplace call threw, or it is still running when the fuel is used up.
\<close>

datatype loopEnd = LoopDone | LoopBroken | LoopThrew | LoopRunning

text \<open>
  The loop \<^verbatim>\<open>for (let i = 0; i < xs.length; i += batchSize)\<close> of a push phase, from index \<open>i\<close>
  on. The batch size is whatever number the adaptive batcher holds (a whole number or NaN,
  as \<^verbatim>\<open>parseInt\<close> and \<^verbatim>\<open>Math.floor\<close> leave there), so the loop need not end: each test of the
  loop condition uses one unit of fuel. The state is the number of
  marketplace calls made so far and the events so far; \<open>ok k\<close> tells whether the call made
  after \<open>k\<close> calls returns, \<open>stopRequested k\<close> whether \<^verbatim>\<open>shouldStop\<close> is set when it is read after
  \<open>k\<close> calls.
\<close>

fun pushLoop ::
  "nat \<Rightarrow> (nat \<Rightarrow> bool) \<Rightarrow> (nat \<Rightarrow> bool) \<Rightarrow> ('a list \<Rightarrow> payload) \<Rightarrow> jsnum \<Rightarrow> 'a list \<Rightarrow> jsnum \<Rightarrow>
   nat \<times> event list \<Rightarrow> loopEnd \<times> nat \<times> event list" where
  "pushLoop 0 ok stopRequested mk batchSize xs i st = (LoopRunning, st)"
| "pushLoop (Suc fuel) ok stopRequested mk batchSize xs i st =
     (if \<not> num_lt i (Fin (of_nat (length xs))) then (LoopDone, st)
      else if stopRequested (fst st) then (LoopBroken, st)
      else
        let batch = js_slice xs i (num_add i batchSize)
        in if ok (fst st)
           then pushLoop fuel ok stopRequested mk batchSize xs (num_add i batchSize)
                  (fst st + 1, snd st @ [WoltCall (mk batch) True])
           else (LoopThrew, (fst st + 1, snd st @ [WoltCall (mk batch) False])))"

text \<open>Everything an iteration of the worker reads from outside: what \<^verbatim>\<open>loadState\<close> returns,
  the two SoT responses, the configuration, the batch size the adaptive batcher returns,
  the clock, the marketplace and the stop flag.\<close>

record WorkerInput =
  w_loadedState :: SyncState
  w_inventoryResult :: "string + FinaInventoryItem list"
  w_detailsResult :: "string + FinaProductDetail list"
  w_skipIfInState :: bool
  w_dailyLimit :: jsnum
  w_batchSize :: jsnum
  w_clock :: int
  w_woltOk :: "nat \<Rightarrow> bool"
  w_shouldStop :: "nat \<Rightarrow> bool"

text \<open>
  \<^verbatim>\<open>syncNextBatch\<close> with its effects: how the iteration ends (\<open>None\<close> when a push loop is still
  running after \<open>fuel\<close> tests of its condition) and the events up to there. A marketplace
  call that throws ends the iteration before the state is saved; a stop request only leaves
  the loops.
\<close>

definition syncNextBatch_run :: "nat \<Rightarrow> WorkerInput \<Rightarrow> outcome option \<times> event list" where
  "syncNextBatch_run fuel inp =
     (case w_inventoryResult inp of
        Inl err \<Rightarrow> (Some (Thrown err), [])
      | Inr inventoryItems \<Rightarrow>
          (case w_detailsResult inp of
             Inl err \<Rightarrow> (Some (Thrown err), [])
           | Inr details \<Rightarrow>
               let state = w_loadedState inp;
                   unsynced = unsyncedItems (w_skipIfInState inp) state (mapToWoltSku details)
                                details
               in if length unsynced = 0 then (Some Completed, [])
                  else
                    let batchToSync = js_slice unsynced (Fin 0) (w_dailyLimit inp);
                        (itemUpd, invUpd) =
                          backgroundUpdates
                            (map_get (map (\<lambda>i. (inv_id i, rest i)) inventoryItems))
                            (map_get (map (\<lambda>d. (det_id d, d)) details)) batchToSync;
                        (end1, st1) =
                          (if itemUpd \<noteq> []
                           then pushLoop fuel (w_woltOk inp) (w_shouldStop inp) Items
                                  (w_batchSize inp) itemUpd (Fin 0) (0, [])
                           else (LoopDone, (0, [])))
                    in (case end1 of
                          LoopThrew \<Rightarrow> (Some (Thrown ''Wolt API error''), snd st1)
                        | LoopRunning \<Rightarrow> (None, snd st1)
                        | _ \<Rightarrow>
                            let (end2, st2) =
                                  (if invUpd \<noteq> [] \<and> \<not> w_shouldStop inp (fst st1)
                                   then pushLoop fuel (w_woltOk inp) (w_shouldStop inp) Inventory
                                          (w_batchSize inp) invUpd (Fin 0) st1
                                   else (LoopDone, st1))
                            in (case end2 of
                                  LoopThrew \<Rightarrow> (Some (Thrown ''Wolt API error''), snd st2)
                                | LoopRunning \<Rightarrow> (None, snd st2)
                                | _ \<Rightarrow>
                                    (Some Completed,
                                     snd st2 @
                                     [SaveState
                                        (markSynced (w_clock inp) state batchToSync)])))))"

section \<open>Notions and sample data for the worker\<close>

text \<open>The index of a loop whose batch size is a number is a number; it is \<open>-Infinity\<close> only
  when the batch size is.\<close>

definition indexOk :: "jsnum \<Rightarrow> jsnum \<Rightarrow> bool" where
  "indexOk b i \<longleftrightarrow> b \<noteq> NaN \<and> i \<noteq> NaN \<and> (i = NegInf \<longrightarrow> b = NegInf)"

text \<open>An iteration of the worker for the store of \<open>sample_inventory\<close> without state: the
  batch size is the one a fresh adaptive batcher returns, every marketplace call succeeds
  and no stop is requested.\<close>

definition sample_worker :: WorkerInput where
  "sample_worker =
     \<lparr> w_loadedState = [], w_inventoryResult = Inr sample_inventory,
       w_detailsResult = Inr sample_details, w_skipIfInState = True, w_dailyLimit = Fin 500,
       w_batchSize = fst (getCurrentBatchSize (\<lambda>k. None) (\<lambda>v. None) ''venue''),
       w_clock = 1000, w_woltOk = (\<lambda>k. True), w_shouldStop = (\<lambda>k. False) \<rparr>"

text \<open>A store without state whose only product, SKU C with 7 in stock, has no price.\<close>

definition unpriced_inventory :: "FinaInventoryItem list" where
  "unpriced_inventory = [\<lparr> inv_id = 3, rest = 7, store_id = 1 \<rparr>]"

definition unpriced_details :: "FinaProductDetail list" where
  "unpriced_details =
     [\<lparr> det_id = 3, title = ''c'', det_price = Undefined,
        add_fields = Some [\<lparr> field = ''usr_column_514'', fvalue = ''C'' \<rparr>] \<rparr>]"

definition unpriced_input :: RunInput where
  "unpriced_input =
     \<lparr> storeId = 7, storeEnabled = True, loadedState = [],
       inventoryResult = Inr unpriced_inventory, detailsResult = Inr unpriced_details,
       clock = 1000, woltOk = (\<lambda>k. True), environment = (\<lambda>k. None) \<rparr>"

section \<open>WoltRateLimiter (utils/woltRateLimiter.ts)\<close>

text \<open>
  Times and durations are milliseconds, as rationals; a reading of the clock (\<^verbatim>\<open>Date.now()\<close>)
  is a whole number of them. The readings of the clock, the random jitter, the outcome of
  the write of the state file, the lateness of the timer and what other writers do to the
  state file are inputs of the operations.
\<close>

text \<open>
  The delay \<^verbatim>\<open>setTimeout(f, ms)\<close> of Node.js uses: a delay below 1 or above \<open>2^31 - 1\<close> is
  replaced by 1, and a fractional delay is truncated.
\<close>

definition setTimeoutDelay :: "rat \<Rightarrow> rat" where
  "setTimeoutDelay ms = (if 1 \<le> ms \<and> ms \<le> 2147483647 then of_int \<lfloor>ms\<rfloor> else 1)"

record WoltRateLimiterOptions =
  minIntervalMs :: rat
  retryAfterBufferMs :: rat
  retryAfterJitterMs :: rat
  learnMinIntervalFromRetryAfter :: bool
  enforceLearnedMinIntervalAfterSuccess :: bool
  maxLearnedMinIntervalMs :: rat
  key :: "string option"

text \<open>\<^verbatim>\<open>fromEnv\<close> with no environment variable set.\<close>

definition defaultLimiterOptions :: "string \<Rightarrow> WoltRateLimiterOptions" where
  "defaultLimiterOptions k =
     \<lparr> minIntervalMs = 1100, retryAfterBufferMs = 1000, retryAfterJitterMs = 250,
       learnMinIntervalFromRetryAfter = True, enforceLearnedMinIntervalAfterSuccess = True,
       maxLearnedMinIntervalMs = 3600000, key = Some k \<rparr>"

text \<open>\<^verbatim>\<open>if (this.options.key)\<close>: an absent or empty key is falsy.\<close>

definition hasKey :: "WoltRateLimiterOptions \<Rightarrow> bool" where
  "hasKey opts = (case key opts of None \<Rightarrow> False | Some k \<Rightarrow> k \<noteq> [])"

text \<open>The limiter's entry in \<^verbatim>\<open>state/rate-limits.json\<close>.\<close>

record RateLimiterState =
  saved_nextAllowedAtMs :: rat
  saved_learnedMinIntervalMs :: rat

text \<open>The state file as this limiter sees it: missing, unreadable, or readable with or
  without an entry under the limiter's key.\<close>

datatype ratefile = FileMissing | FileUnreadable | FileEntries "RateLimiterState option"

record WoltRateLimiter =
  nextAllowedAtMs :: rat
  lastRequestAtMs :: rat
  learnedMinIntervalMs :: rat

text \<open>The initial values of the fields.\<close>

definition newLimiter :: WoltRateLimiter where
  "newLimiter = \<lparr> nextAllowedAtMs = 0, lastRequestAtMs = 0, learnedMinIntervalMs = 0 \<rparr>"

text \<open>The value of a \<^verbatim>\<open>Retry-After\<close> header as the caller passes it.\<close>

datatype header = HNumber jsnum | HString string | HOther

text \<open>\<^verbatim>\<open>s.trim()\<close> for the ASCII white space.\<close>

definition trim :: "string \<Rightarrow> string" where
  "trim s = rev (dropWhile is_space (rev (dropWhile is_space s)))"

text \<open>
  \<^verbatim>\<open>parseRetryAfterMs\<close>; \<open>None\<close> is \<^verbatim>\<open>undefined\<close>. \<open>dateParse\<close> stands for \<^verbatim>\<open>Date.parse\<close>
  (\<open>None\<close> for NaN).
\<close>

definition parseRetryAfterMs ::
  "(string \<Rightarrow> rat option) \<Rightarrow> header \<Rightarrow> rat \<Rightarrow> rat option" where
  "parseRetryAfterMs dateParse v nowMs =
     (case v of
        HNumber (Fin x) \<Rightarrow> if x \<ge> 0 then Some (x * 1000) else None
      | HNumber _ \<Rightarrow> None
      | HOther \<Rightarrow> None
      | HString s \<Rightarrow>
          (let trimmed = trim s
           in if trimmed = [] then None
              else if list_all is_digit trimmed
              then Some (max 0 (of_int (digits_val trimmed) * 1000))
              else (case dateParse trimmed of
                      Some asDate \<Rightarrow> Some (max 0 (asDate - nowMs))
                    | None \<Rightarrow> None)))"

text \<open>\<^verbatim>\<open>loadState\<close>: a missing or unreadable file and a missing entry leave the limiter as it
  is.\<close>

definition loadLimiterState :: "ratefile \<Rightarrow> WoltRateLimiter \<Rightarrow> WoltRateLimiter" where
  "loadLimiterState file limiter =
     (case file of
        FileEntries (Some myState) \<Rightarrow>
          limiter\<lparr> nextAllowedAtMs := saved_nextAllowedAtMs myState,
               learnedMinIntervalMs := saved_learnedMinIntervalMs myState \<rparr>
      | _ \<Rightarrow> limiter)"


text \<open>\<^verbatim>\<open>saveState\<close>: nothing without a key; a failed write is ignored and leaves the file as
  it was.\<close>

definition saveLimiterState ::
  "WoltRateLimiterOptions \<Rightarrow> bool \<Rightarrow> WoltRateLimiter \<Rightarrow> ratefile \<Rightarrow> ratefile" where
  "saveLimiterState opts writeOk limiter file =
     (if \<not> hasKey opts then file
      else if writeOk
      then FileEntries (Some \<lparr> saved_nextAllowedAtMs = nextAllowedAtMs limiter,
                               saved_learnedMinIntervalMs = learnedMinIntervalMs limiter \<rparr>)
      else file)"

text \<open>
  \<^verbatim>\<open>waitForTurn\<close> called when the clock reads \<open>now\<close>. The second reading of the clock, at the
  end, is \<open>now\<close> plus the delay the timer used (if the function slept) plus \<open>late\<close>, the time
  the timer and the scheduler add: a timer is taken to fire no earlier than the delay it
  uses. The result holds that second reading, which is when the request is issued, and the
  wait the function asked the timer for (0 if it did not sleep).
\<close>

definition waitForTurn ::
  "WoltRateLimiterOptions \<Rightarrow> int \<Rightarrow> nat \<Rightarrow> WoltRateLimiter \<times> ratefile \<Rightarrow>
   (WoltRateLimiter \<times> ratefile) \<times> rat \<times> rat" where
  "waitForTurn opts now late w =
     (let file = snd w;
          limiter = (if hasKey opts then loadLimiterState file (fst w) else fst w);
          minIntervalGate =
            (if lastRequestAtMs limiter > 0
             then lastRequestAtMs limiter + max (minIntervalMs opts) (learnedMinIntervalMs limiter)
             else 0);
          gateAt = max (nextAllowedAtMs limiter) minIntervalGate;
          waitMs = (if gateAt > of_int now then gateAt - of_int now else 0);
          returnedAt = (if gateAt > of_int now
                        then of_int now + setTimeoutDelay waitMs + of_nat late
                        else of_int now + of_nat late)
      in ((limiter\<lparr> lastRequestAtMs := returnedAt \<rparr>, file), returnedAt, waitMs))"

text \<open>\<^verbatim>\<open>onRateLimited\<close>; \<open>draw\<close> is \<^verbatim>\<open>Math.floor(Math.random() * retryAfterJitterMs)\<close>.\<close>

definition onRateLimited ::
  "WoltRateLimiterOptions \<Rightarrow> (string \<Rightarrow> rat option) \<Rightarrow> header \<Rightarrow> int \<Rightarrow> nat \<Rightarrow> bool \<Rightarrow>
   WoltRateLimiter \<times> ratefile \<Rightarrow> WoltRateLimiter \<times> ratefile" where
  "onRateLimited opts dateParse retryAfterHeaderValue now draw writeOk w =
     (let limiter = fst w; file = snd w;
          retryAfterMs = parseRetryAfterMs dateParse retryAfterHeaderValue (of_int now);
          positive = (case retryAfterMs of None \<Rightarrow> False | Some r \<Rightarrow> r > 0);
          limiter = (if learnMinIntervalFromRetryAfter opts \<and> positive
                 then limiter\<lparr> learnedMinIntervalMs :=
                          min (max (learnedMinIntervalMs limiter) (the retryAfterMs))
                              (maxLearnedMinIntervalMs opts) \<rparr>
                 else limiter)
      in if positive then
           let jitter = (if retryAfterJitterMs opts > 0 then of_nat draw else 0);
               nextAllowed = of_int now + the retryAfterMs + retryAfterBufferMs opts + jitter;
               limiter = limiter\<lparr> nextAllowedAtMs := max (nextAllowedAtMs limiter) nextAllowed \<rparr>
           in (limiter, saveLimiterState opts writeOk limiter file)
         else (limiter, file))"

definition onSuccess ::
  "WoltRateLimiterOptions \<Rightarrow> int \<Rightarrow> WoltRateLimiter \<times> ratefile \<Rightarrow> WoltRateLimiter \<times> ratefile"
  where
  "onSuccess opts now w =
     (let limiter = fst w
      in if \<not> enforceLearnedMinIntervalAfterSuccess opts then w
         else
           let postSuccessDelay = max (minIntervalMs opts) (learnedMinIntervalMs limiter)
           in if postSuccessDelay \<le> 0 then w
              else (limiter\<lparr> nextAllowedAtMs :=
                              max (nextAllowedAtMs limiter) (of_int now + postSuccessDelay) \<rparr>,
                    snd w))"

text \<open>
  What happens to one limiter, one step after the other: a call of one of its three
  methods, with what the call reads from outside, or a change of the state file by another
  writer. The calls do not overlap: the adapter that owns the limiter runs one request at a
  time (its queue has concurrency 1), and the limiter serialises \<^verbatim>\<open>waitForTurn\<close>. The entry under the limiter's
  key is written by every limiter object built with that key (each \<^verbatim>\<open>WoltAdapter\<close> builds its
  own, in this process or another); \<open>FileChanged file\<close> is such a step, after which the state
  file is \<open>file\<close> as this limiter sees it.
\<close>

datatype limiterCall =
  WaitForTurn int nat
  | OnSuccess int
  | OnRateLimited header int nat bool
  | FileChanged ratefile

text \<open>Running a sequence of steps; the result lists, for each request gated by
  \<^verbatim>\<open>waitForTurn\<close>, the time at which it was issued and the wait the limiter asked for.\<close>

fun runLimiter ::
  "WoltRateLimiterOptions \<Rightarrow> (string \<Rightarrow> rat option) \<Rightarrow> limiterCall list \<Rightarrow>
   WoltRateLimiter \<times> ratefile \<Rightarrow> (rat \<times> rat) list" where
  "runLimiter opts dateParse [] w = []"
| "runLimiter opts dateParse (WaitForTurn now late # calls) w =
     (let (w', request) = waitForTurn opts now late w
      in request # runLimiter opts dateParse calls w')"
| "runLimiter opts dateParse (OnSuccess now # calls) w =
     runLimiter opts dateParse calls (onSuccess opts now w)"
| "runLimiter opts dateParse (OnRateLimited h now draw writeOk # calls) w =
     runLimiter opts dateParse calls (onRateLimited opts dateParse h now draw writeOk w)"
| "runLimiter opts dateParse (FileChanged file # calls) w =
     runLimiter opts dateParse calls (fst w, file)"

section \<open>Notions and sample data for the rate limiter\<close>







chapter \<open>Properties\<close>

section \<open>Properties of the PriorityScorer\<close>

lemma scorer_rejects_iff:
  "scorer_rejects p \<longleftrightarrow> \<not> typeof_number p \<or> val_lt p (Fin 0)"
proof (cases p)
  case (Number n)
  then show ?thesis by (cases n) simp_all
qed simp_all

lemma nonneg_finite_not_rejected: "nonneg_finite p \<Longrightarrow> \<not> scorer_rejects p"
proof (cases p)
  case (Number n)
  assume "nonneg_finite p"
  with Number show ?thesis by (cases n) simp_all
qed simp_all

lemma rejected_or_special:
  "\<not> nonneg_finite p \<Longrightarrow> scorer_rejects p \<or> p = Number NaN \<or> p = Number PosInf"
proof (cases p)
  case (Number n)
  assume "\<not> nonneg_finite p"
  with Number show ?thesis by (cases n) auto
qed simp_all

lemma calculatePriority_positive:
  "0 < fst (calculatePriority cfg item detail) \<Longrightarrow> \<not> scorer_rejects (det_price detail)"
  by (auto simp: calculatePriority_def scorer_rejects_iff split: if_splits)

lemma calculatePriority_rejected:
  "scorer_rejects (det_price detail) \<Longrightarrow>
   calculatePriority cfg item detail = (0, ''invalid-price'')"
  by (simp add: calculatePriority_def scorer_rejects_iff)

text \<open>
  Claim C10, as the code has it. For every (inventory, detail) pair \<^verbatim>\<open>calculatePriority\<close>
  returns score 0 with reason \<^verbatim>\<open>invalid-price\<close> when the price is not a non-negative finite
  number, with two exceptions: NaN and \<open>+Infinity\<close> pass the test
  \<^verbatim>\<open>typeof price !== 'number' || price < 0\<close>, are never reported as \<^verbatim>\<open>invalid-price\<close> and are
  scored like the non-negative finite prices. For each of these prices the function returns
  score 0 with reason \<^verbatim>\<open>out-of-stock\<close> when the quantity is 0 (or below), and for a positive
  quantity the sum of \<open>inStockWeight\<close> and the three conditional bonuses, where the
  high-value bonus is given to a finite price at or above the threshold and to \<open>+Infinity\<close>,
  and never to NaN.
\<close>

theorem calculatePriority_cases:
  "(\<not> nonneg_finite (det_price detail) \<and> det_price detail \<noteq> Number NaN \<and>
    det_price detail \<noteq> Number PosInf \<longrightarrow>
      calculatePriority cfg item detail = (0, ''invalid-price'')) \<and>
   (det_price detail = Number NaN \<or> det_price detail = Number PosInf \<longrightarrow>
      snd (calculatePriority cfg item detail) \<noteq> ''invalid-price'') \<and>
   ((nonneg_finite (det_price detail) \<or> det_price detail = Number NaN \<or>
     det_price detail = Number PosInf) \<and> rest item \<le> 0 \<longrightarrow>
      calculatePriority cfg item detail = (0, ''out-of-stock'')) \<and>
   ((nonneg_finite (det_price detail) \<or> det_price detail = Number NaN \<or>
     det_price detail = Number PosInf) \<and> rest item > 0 \<longrightarrow>
      fst (calculatePriority cfg item detail) =
        inStockWeight cfg
        + (if rest item \<ge> highStockThreshold cfg then highStockWeight cfg else 0)
        + (if rest item \<le> lowStockThreshold cfg then lowStockWeight cfg else 0)
        + (if (case det_price detail of
                 Number (Fin r) \<Rightarrow> highValueThreshold cfg \<le> r
               | Number PosInf \<Rightarrow> True
               | _ \<Rightarrow> False)
           then highValueWeight cfg else 0))"
proof (intro conjI impI)
  assume "\<not> nonneg_finite (det_price detail) \<and> det_price detail \<noteq> Number NaN \<and>
    det_price detail \<noteq> Number PosInf"
  then have "scorer_rejects (det_price detail)"
    using rejected_or_special by blast
  then show "calculatePriority cfg item detail = (0, ''invalid-price'')"
    by (rule calculatePriority_rejected)
next
  assume "det_price detail = Number NaN \<or> det_price detail = Number PosInf"
  then show "snd (calculatePriority cfg item detail) \<noteq> ''invalid-price''"
    by (auto simp: calculatePriority_def Let_def split: prod.splits)
next
  assume "(nonneg_finite (det_price detail) \<or> det_price detail = Number NaN \<or>
     det_price detail = Number PosInf) \<and> rest item \<le> 0"
  then have "\<not> scorer_rejects (det_price detail)" and "rest item \<le> 0"
    using nonneg_finite_not_rejected [of "det_price detail"] by auto
  then show "calculatePriority cfg item detail = (0, ''out-of-stock'')"
    by (simp add: calculatePriority_def scorer_rejects_iff)
next
  assume a: "(nonneg_finite (det_price detail) \<or> det_price detail = Number NaN \<or>
     det_price detail = Number PosInf) \<and> rest item > 0"
  then consider (finite) r where "det_price detail = Number (Fin r)" "0 \<le> r"
    | (nan) "det_price detail = Number NaN"
    | (inf) "det_price detail = Number PosInf"
    by (metis nonneg_finite.elims(2))
  then show "fst (calculatePriority cfg item detail) =
        inStockWeight cfg
        + (if rest item \<ge> highStockThreshold cfg then highStockWeight cfg else 0)
        + (if rest item \<le> lowStockThreshold cfg then lowStockWeight cfg else 0)
        + (if (case det_price detail of
                 Number (Fin r) \<Rightarrow> highValueThreshold cfg \<le> r
               | Number PosInf \<Rightarrow> True
               | _ \<Rightarrow> False)
           then highValueWeight cfg else 0)"
  proof cases
    case finite
    with a show ?thesis
      by (simp add: calculatePriority_def Let_def not_less split: prod.splits)
  next
    case nan
    with a show ?thesis
      by (simp add: calculatePriority_def Let_def split: prod.splits)
  next
    case inf
    with a show ?thesis
      by (simp add: calculatePriority_def Let_def split: prod.splits)
  qed
qed

theorem calculatePriority_cases_witness:
  "calculatePriority defaultPriorityConfig \<lparr> inv_id = 1, rest = 7, store_id = 1 \<rparr>
     \<lparr> det_id = 1, title = ''a'', det_price = Undefined, add_fields = None \<rparr>
     = (0, ''invalid-price'') \<and>
   calculatePriority defaultPriorityConfig \<lparr> inv_id = 1, rest = 0, store_id = 1 \<rparr>
     \<lparr> det_id = 1, title = ''a'', det_price = Number (Fin 60), add_fields = None \<rparr>
     = (0, ''out-of-stock'') \<and>
   fst (calculatePriority defaultPriorityConfig \<lparr> inv_id = 1, rest = 3, store_id = 1 \<rparr>
     \<lparr> det_id = 1, title = ''a'', det_price = Number (Fin 60), add_fields = None \<rparr>) = 125 \<and>
   fst (calculatePriority defaultPriorityConfig \<lparr> inv_id = 1, rest = 3, store_id = 1 \<rparr>
     \<lparr> det_id = 1, title = ''a'', det_price = Number (Fin 20), add_fields = None \<rparr>) = 110 \<and>
   snd (calculatePriority defaultPriorityConfig \<lparr> inv_id = 1, rest = 3, store_id = 1 \<rparr>
     \<lparr> det_id = 1, title = ''a'', det_price = Number NaN, add_fields = None \<rparr>)
     \<noteq> ''invalid-price'' \<and>
   fst (calculatePriority defaultPriorityConfig \<lparr> inv_id = 1, rest = 3, store_id = 1 \<rparr>
     \<lparr> det_id = 1, title = ''a'', det_price = Number NaN, add_fields = None \<rparr>) = 110 \<and>
   calculatePriority defaultPriorityConfig \<lparr> inv_id = 1, rest = 0, store_id = 1 \<rparr>
     \<lparr> det_id = 1, title = ''a'', det_price = Number NaN, add_fields = None \<rparr>
     = (0, ''out-of-stock'') \<and>
   fst (calculatePriority defaultPriorityConfig \<lparr> inv_id = 1, rest = 60, store_id = 1 \<rparr>
     \<lparr> det_id = 1, title = ''a'', det_price = Number PosInf, add_fields = None \<rparr>) = 135"
  using
    calculatePriority_cases
      [of "\<lparr> det_id = 1, title = ''a'', det_price = Undefined, add_fields = None \<rparr>"
          defaultPriorityConfig "\<lparr> inv_id = 1, rest = 7, store_id = 1 \<rparr>"]
    calculatePriority_cases
      [of "\<lparr> det_id = 1, title = ''a'', det_price = Number (Fin 60), add_fields = None \<rparr>"
          defaultPriorityConfig "\<lparr> inv_id = 1, rest = 0, store_id = 1 \<rparr>"]
    calculatePriority_cases
      [of "\<lparr> det_id = 1, title = ''a'', det_price = Number (Fin 60), add_fields = None \<rparr>"
          defaultPriorityConfig "\<lparr> inv_id = 1, rest = 3, store_id = 1 \<rparr>"]
    calculatePriority_cases
      [of "\<lparr> det_id = 1, title = ''a'', det_price = Number (Fin 20), add_fields = None \<rparr>"
          defaultPriorityConfig "\<lparr> inv_id = 1, rest = 3, store_id = 1 \<rparr>"]
    calculatePriority_cases
      [of "\<lparr> det_id = 1, title = ''a'', det_price = Number NaN, add_fields = None \<rparr>"
          defaultPriorityConfig "\<lparr> inv_id = 1, rest = 3, store_id = 1 \<rparr>"]
    calculatePriority_cases
      [of "\<lparr> det_id = 1, title = ''a'', det_price = Number NaN, add_fields = None \<rparr>"
          defaultPriorityConfig "\<lparr> inv_id = 1, rest = 0, store_id = 1 \<rparr>"]
    calculatePriority_cases
      [of "\<lparr> det_id = 1, title = ''a'', det_price = Number PosInf, add_fields = None \<rparr>"
          defaultPriorityConfig "\<lparr> inv_id = 1, rest = 60, store_id = 1 \<rparr>"]
  by (simp add: defaultPriorityConfig_def)

text \<open>
  Claim C10 as stated fails for a price of \<open>+Infinity\<close>, which is not a finite number: with
  5 items in stock and the default weights the score is 125, not 0.
\<close>

theorem calculatePriority_infinite_price_counterexample:
  "\<not> nonneg_finite (Number PosInf) \<and>
   calculatePriority defaultPriorityConfig \<lparr> inv_id = 1, rest = 5, store_id = 1 \<rparr>
     \<lparr> det_id = 1, title = ''a'', det_price = Number PosInf, add_fields = None \<rparr>
     \<noteq> (0, ''invalid-price'') \<and>
   calculatePriority defaultPriorityConfig \<lparr> inv_id = 1, rest = 5, store_id = 1 \<rparr>
     \<lparr> det_id = 1, title = ''a'', det_price = Number PosInf, add_fields = None \<rparr>
     = (125, ''in-stock, low-stock, high-value'')"
  by (simp add: calculatePriority_def defaultPriorityConfig_def)

section \<open>Properties of the priority-sync phase\<close>









section \<open>Properties of the AdaptiveBatcher\<close>

text \<open>
  Claim C4 does not hold of the code. With no persisted state for the venue and no
  environment variable set, \<^verbatim>\<open>initConfig\<close> starts the venue at a batch size of 1000 with a
  minimum of 10 and a maximum of 5000, and the first batch size handed out is 1000, above
  the ceiling of 200.
\<close>

theorem initConfig_defaults:
  "fst (initConfig (\<lambda>k. None) (\<lambda>v. None) ''venue'') =
     \<lparr> currentBatchSize = Fin 1000, minBatchSize = Fin 10, maxBatchSize = Fin 5000,
       successStreak = 0, failureStreak = 0, lastRateLimitAt = 0,
       optimalBatchSize = Fin 1000, totalRequests = 0, totalRateLimits = 0 \<rparr> \<and>
   fst (getCurrentBatchSize (\<lambda>k. None) (\<lambda>v. None) ''venue'') = Fin 1000 \<and>
   num_lt (Fin 200) (fst (getCurrentBatchSize (\<lambda>k. None) (\<lambda>v. None) ''venue''))"
  by (simp add: initConfig_def getCurrentBatchSize_def env_or_def parseInt_def is_space_def
      is_digit_def digits_val_def digit_val_def Let_def)

section \<open>Properties of loadState\<close>

text \<open>
  Claim C5. When the primary file is absent, \<^verbatim>\<open>loadState\<close> returns the empty map and the
  only file operation is the existence test of the primary: the backup is not consulted.
  When the primary is present but unparseable or schema-invalid, it returns the backup if
  the backup is valid, and the empty map if the backup is absent, unparseable or invalid.
  In every case it returns a state: no exception escapes.
\<close>

theorem loadState_cases:
  "(primaryFile fs = None \<longrightarrow>
      loadState fs = (Inr (JObject []), [PathExists Primary])) \<and>
   (primaryFile fs \<noteq> None \<and> \<not> validFile (primaryFile fs) \<and>
    backupFile fs = Some (Content b) \<and> isValidState b \<longrightarrow>
      fst (loadState fs) = Inr b) \<and>
   (primaryFile fs \<noteq> None \<and> \<not> validFile (primaryFile fs) \<and> \<not> validFile (backupFile fs) \<longrightarrow>
      fst (loadState fs) = Inr (JObject [])) \<and>
   (\<exists>state. fst (loadState fs) = Inr state)"
proof (intro conjI impI)
  assume "primaryFile fs = None"
  then show "loadState fs = (Inr (JObject []), [PathExists Primary])"
    by (simp add: loadState_def pathExists_def fileAt_def)
next
  have primary_none: "readStateFile fs Primary = None"
    if "\<not> validFile (primaryFile fs)"
    using that
    by (cases "primaryFile fs" rule: validFile.cases)
       (simp_all add: readStateFile_def readJson_def fileAt_def)
  {
    assume a: "primaryFile fs \<noteq> None \<and> \<not> validFile (primaryFile fs) \<and>
      backupFile fs = Some (Content b) \<and> isValidState b"
    then show "fst (loadState fs) = Inr b"
      using primary_none
      by (simp add: loadState_def pathExists_def fileAt_def readStateFile_def readJson_def)
  }
  {
    assume a: "primaryFile fs \<noteq> None \<and> \<not> validFile (primaryFile fs) \<and>
      \<not> validFile (backupFile fs)"
    then have "readStateFile fs Backup = None"
      by (cases "backupFile fs" rule: validFile.cases)
         (simp_all add: readStateFile_def readJson_def fileAt_def)
    with a show "fst (loadState fs) = Inr (JObject [])"
      using primary_none
      by (simp add: loadState_def pathExists_def fileAt_def)
  }
  show "\<exists>state. fst (loadState fs) = Inr state"
    by (simp add: loadState_def split: option.splits)
qed

text \<open>
  Three loads: no primary beside a valid backup; a primary that is not JSON beside a valid
  backup; a primary whose entry has no boolean \<open>enabled\<close>, with no backup.
\<close>

theorem loadState_cases_witness:
  "loadState \<lparr> primaryFile = None,
       backupFile = Some (Content (JObject [(''A'', JObject [(''quantity'', JNumber (Fin 5)),
         (''enabled'', JBool True)])])) \<rparr>
     = (Inr (JObject []), [PathExists Primary]) \<and>
   fst (loadState \<lparr> primaryFile = Some Unreadable,
       backupFile = Some (Content (JObject [(''A'', JObject [(''quantity'', JNumber (Fin 5)),
         (''enabled'', JBool True)])])) \<rparr>)
     = Inr (JObject [(''A'', JObject [(''quantity'', JNumber (Fin 5)),
         (''enabled'', JBool True)])]) \<and>
   fst (loadState \<lparr> primaryFile = Some (Content (JObject [(''A'', JObject [(''quantity'',
         JNumber (Fin 5)), (''enabled'', JNull)])])),
       backupFile = None \<rparr>)
     = Inr (JObject [])"
  using
    loadState_cases [of "\<lparr> primaryFile = None,
       backupFile = Some (Content (JObject [(''A'', JObject [(''quantity'', JNumber (Fin 5)),
         (''enabled'', JBool True)])])) \<rparr>"]
    loadState_cases [of "\<lparr> primaryFile = Some Unreadable,
       backupFile = Some (Content (JObject [(''A'', JObject [(''quantity'', JNumber (Fin 5)),
         (''enabled'', JBool True)])])) \<rparr>"
       "JObject [(''A'', JObject [(''quantity'', JNumber (Fin 5)), (''enabled'', JBool True)])]"]
    loadState_cases [of "\<lparr> primaryFile = Some (Content (JObject [(''A'', JObject [(''quantity'',
         JNumber (Fin 5)), (''enabled'', JNull)])])),
       backupFile = None \<rparr>"]
  by (simp add: getProp_def blank_def is_space_def)

section \<open>Properties of SyncEngine (core/sync.ts)\<close>

lemma addProduct_distinct:
  "distinct (map fst woltData) \<Longrightarrow>
   distinct (map fst (addProduct stockMap skuMap woltData product))"
  by (simp add: addProduct_def Let_def distinct_update split: option.splits)

lemma foldl_addProduct_distinct:
  "distinct (map fst woltData) \<Longrightarrow>
   distinct (map fst (foldl (addProduct stockMap skuMap) woltData details))"
  by (induction details arbitrary: woltData) (simp_all add: addProduct_distinct)

lemma buildWoltData_distinct: "distinct (map fst (buildWoltData inventoryItems details))"
  by (simp add: buildWoltData_def foldl_addProduct_distinct)

lemma diffSku_items:
  "itemUpdates (diffSku f b now prev acc e) =
     itemUpdates acc @ itemUpdates (diffSku f b now prev emptyChanges e)"
  by (simp add: diffSku_def emptyChanges_def Let_def split: option.splits)

lemma diffSku_inventory:
  "inventoryUpdates (diffSku f b now prev acc e) =
     inventoryUpdates acc @ inventoryUpdates (diffSku f b now prev emptyChanges e)"
  by (simp add: diffSku_def emptyChanges_def Let_def split: option.splits)

lemma foldl_diffSku_items:
  "itemUpdates (foldl (diffSku f b now prev) acc wd) =
     itemUpdates acc @ concat (map (\<lambda>e. itemUpdates (diffSku f b now prev emptyChanges e)) wd)"
proof (induction wd arbitrary: acc)
  case Nil
  then show ?case by simp
next
  case (Cons e wd)
  show ?case
    by (simp add: Cons.IH diffSku_items [of f b now prev acc e])
qed

lemma foldl_diffSku_inventory:
  "inventoryUpdates (foldl (diffSku f b now prev) acc wd) =
     inventoryUpdates acc
     @ concat (map (\<lambda>e. inventoryUpdates (diffSku f b now prev emptyChanges e)) wd)"
proof (induction wd arbitrary: acc)
  case Nil
  then show ?case by simp
next
  case (Cons e wd)
  show ?case
    by (simp add: Cons.IH diffSku_inventory [of f b now prev acc e])
qed

lemma missingSku_items:
  "itemUpdates (missingSku b now wd acc e) =
     itemUpdates acc @ itemUpdates (missingSku b now wd emptyChanges e)"
  by (simp add: missingSku_def emptyChanges_def Let_def)

lemma missingSku_inventory:
  "inventoryUpdates (missingSku b now wd acc e) =
     inventoryUpdates acc @ inventoryUpdates (missingSku b now wd emptyChanges e)"
  by (simp add: missingSku_def emptyChanges_def Let_def)

lemma foldl_missingSku_items:
  "itemUpdates (foldl (missingSku b now wd) acc prev) =
     itemUpdates acc @ concat (map (\<lambda>e. itemUpdates (missingSku b now wd emptyChanges e)) prev)"
proof (induction prev arbitrary: acc)
  case Nil
  then show ?case by simp
next
  case (Cons e prev)
  show ?case
    by (simp add: Cons.IH missingSku_items [of b now wd acc e])
qed

lemma foldl_missingSku_inventory:
  "inventoryUpdates (foldl (missingSku b now wd) acc prev) =
     inventoryUpdates acc
     @ concat (map (\<lambda>e. inventoryUpdates (missingSku b now wd emptyChanges e)) prev)"
proof (induction prev arbitrary: acc)
  case Nil
  then show ?case by simp
next
  case (Cons e prev)
  show ?case
    by (simp add: Cons.IH missingSku_inventory [of b now wd acc e])
qed

text \<open>Selecting the updates of one key from what a loop over distinct keys appended.\<close>

lemma filter_concat_map_key:
  assumes "distinct (map fst xs)"
    and "\<And>e u. e \<in> set xs \<Longrightarrow> u \<in> set (g e) \<Longrightarrow> keyOf u = fst e"
  shows "filter (\<lambda>u. keyOf u = k) (concat (map g xs)) =
           (case map_of xs k of None \<Rightarrow> [] | Some v \<Rightarrow> g (k, v))"
  using assms
proof (induction xs)
  case Nil
  then show ?case by simp
next
  case (Cons e xs)
  obtain k' v' where e: "e = (k', v')" by (cases e)
  have keys: "\<And>u. u \<in> set (g e) \<Longrightarrow> keyOf u = k'"
    using Cons.prems(2) [of e] e by simp
  have IH: "filter (\<lambda>u. keyOf u = k) (concat (map g xs)) =
           (case map_of xs k of None \<Rightarrow> [] | Some v \<Rightarrow> g (k, v))"
    using Cons by simp
  show ?case
  proof (cases "k' = k")
    case True
    then have "map_of xs k = None"
      using Cons.prems(1) e by (simp add: map_of_eq_None_iff)
    moreover have "filter (\<lambda>u. keyOf u = k) (g e) = g e"
      using keys True by (simp add: filter_id_conv)
    ultimately show ?thesis using IH True e by simp
  next
    case False
    then have "filter (\<lambda>u. keyOf u = k) (g e) = []"
      using keys by (auto simp: filter_empty_conv)
    then show ?thesis using IH False e by simp
  qed
qed

lemma diffSku_item_keys:
  "u \<in> set (itemUpdates (diffSku f b now prev emptyChanges e)) \<Longrightarrow> item_sku u = fst e"
  by (auto simp: diffSku_def emptyChanges_def Let_def split: option.splits if_splits)

lemma diffSku_inventory_keys:
  "u \<in> set (inventoryUpdates (diffSku f b now prev emptyChanges e)) \<Longrightarrow> inv_sku u = fst e"
  by (auto simp: diffSku_def emptyChanges_def Let_def split: option.splits if_splits)

lemma missingSku_item_keys:
  "u \<in> set (itemUpdates (missingSku b now wd emptyChanges e)) \<Longrightarrow> item_sku u = fst e"
  by (auto simp: missingSku_def emptyChanges_def Let_def split: if_splits)

lemma missingSku_inventory_keys:
  "u \<in> set (inventoryUpdates (missingSku b now wd emptyChanges e)) \<Longrightarrow> inv_sku u = fst e"
  by (auto simp: missingSku_def emptyChanges_def Let_def split: if_splits)

lemma detectChanges_itemUpdatesFor:
  assumes "distinct (map fst wd)" "distinct (map fst prev)"
  shows "itemUpdatesFor k (detectChanges f b now prev wd) =
      (case map_of wd k of None \<Rightarrow> []
       | Some d \<Rightarrow> itemUpdates (diffSku f b now prev emptyChanges (k, d)))
    @ (case map_of prev k of None \<Rightarrow> []
       | Some p \<Rightarrow> itemUpdates (missingSku b now wd emptyChanges (k, p)))"
  unfolding itemUpdatesFor_def detectChanges_def foldl_missingSku_items foldl_diffSku_items
  using filter_concat_map_key
          [OF assms(1), of "\<lambda>e. itemUpdates (diffSku f b now prev emptyChanges e)" item_sku k]
        filter_concat_map_key
          [OF assms(2), of "\<lambda>e. itemUpdates (missingSku b now wd emptyChanges e)" item_sku k]
        diffSku_item_keys missingSku_item_keys
  by simp

lemma detectChanges_inventoryUpdatesFor:
  assumes "distinct (map fst wd)" "distinct (map fst prev)"
  shows "inventoryUpdatesFor k (detectChanges f b now prev wd) =
      (case map_of wd k of None \<Rightarrow> []
       | Some d \<Rightarrow> inventoryUpdates (diffSku f b now prev emptyChanges (k, d)))
    @ (case map_of prev k of None \<Rightarrow> []
       | Some p \<Rightarrow> inventoryUpdates (missingSku b now wd emptyChanges (k, p)))"
  unfolding inventoryUpdatesFor_def detectChanges_def foldl_missingSku_inventory
    foldl_diffSku_inventory
  using filter_concat_map_key
          [OF assms(1), of "\<lambda>e. inventoryUpdates (diffSku f b now prev emptyChanges e)" inv_sku k]
        filter_concat_map_key
          [OF assms(2), of "\<lambda>e. inventoryUpdates (missingSku b now wd emptyChanges e)" inv_sku k]
        diffSku_inventory_keys missingSku_inventory_keys
  by simp

text \<open>The new state after the two loops, key by key.\<close>

lemma diffSku_newState:
  "map_of (newState (diffSku f b now prev acc e)) =
     (map_of (newState acc))(fst e \<mapsto>
        \<lparr> quantity = data_quantity (snd e), enabled = data_enabled (snd e),
          price = data_price (snd e), lastSeen = now, syncedToWolt = False \<rparr>)"
  by (simp add: diffSku_def Let_def update_conv' split: option.splits)

lemma foldl_diffSku_newState:
  "distinct (map fst wd) \<Longrightarrow>
   map_of (newState (foldl (diffSku f b now prev) acc wd)) k =
     (case map_of wd k of
        None \<Rightarrow> map_of (newState acc) k
      | Some d \<Rightarrow> Some \<lparr> quantity = data_quantity d, enabled = data_enabled d,
                        price = data_price d, lastSeen = now, syncedToWolt = False \<rparr>)"
proof (induction wd arbitrary: acc k)
  case Nil
  then show ?case by simp
next
  case (Cons e wd)
  obtain k' d' where e: "e = (k', d')" by (cases e)
  from Cons.prems e have notin: "map_of wd k' = None"
    by (simp add: map_of_eq_None_iff)
  from Cons.prems have "distinct (map fst wd)" by simp
  note IH = Cons.IH [OF this]
  show ?case
    using e notin
    by (cases "k = k'") (auto simp: IH diffSku_newState split: option.splits)
qed

lemma missingSku_newState:
  "map_of (newState (missingSku b now wd acc e)) =
     (if map_of wd (fst e) = None
      then (map_of (newState acc))(fst e \<mapsto>
             \<lparr> quantity = 0, enabled = False, price = price (snd e), lastSeen = now,
               syncedToWolt = False \<rparr>)
      else map_of (newState acc))"
  by (simp add: missingSku_def Let_def update_conv')

lemma foldl_missingSku_newState:
  "distinct (map fst prev) \<Longrightarrow>
   map_of (newState (foldl (missingSku b now wd) acc prev)) k =
     (case map_of prev k of
        None \<Rightarrow> map_of (newState acc) k
      | Some p \<Rightarrow>
          if map_of wd k = None
          then Some \<lparr> quantity = 0, enabled = False, price = price p, lastSeen = now,
                      syncedToWolt = False \<rparr>
          else map_of (newState acc) k)"
proof (induction prev arbitrary: acc k)
  case Nil
  then show ?case by simp
next
  case (Cons e prev)
  obtain k' p' where e: "e = (k', p')" by (cases e)
  from Cons.prems e have notin: "map_of prev k' = None"
    by (simp add: map_of_eq_None_iff)
  from Cons.prems have "distinct (map fst prev)" by simp
  note IH = Cons.IH [OF this]
  show ?case
    using e notin
    by (cases "k = k'") (auto simp: IH missingSku_newState split: option.splits)
qed

lemma detectChanges_newState:
  assumes "distinct (map fst wd)" "distinct (map fst prev)"
  shows "map_of (newState (detectChanges f b now prev wd)) k =
     (case map_of wd k of
        Some d \<Rightarrow> Some \<lparr> quantity = data_quantity d, enabled = data_enabled d,
                        price = data_price d, lastSeen = now, syncedToWolt = False \<rparr>
      | None \<Rightarrow>
          (case map_of prev k of
             None \<Rightarrow> None
           | Some p \<Rightarrow> Some \<lparr> quantity = 0, enabled = False, price = price p, lastSeen = now,
                             syncedToWolt = False \<rparr>))"
  using assms
  by (simp add: detectChanges_def foldl_missingSku_newState foldl_diffSku_newState
      split: option.splits)

section \<open>Properties of the diff stage\<close>

text \<open>
  Claim C3. In a non-bootstrap run, with \<open>wd\<close> the view built from the SoT data and \<open>c\<close>
  the result of the diff stage, the updates that mention a SKU are exactly these:
  for a SKU of the view that is not in the previous state, one item update (enabled,
  price) and one inventory update (quantity); for a SKU in both, outside force-full mode,
  an inventory update exactly when the quantity differs and an item update exactly when
  the enabled flag differs or the price differs; a price that is NaN differs from every
  price, itself included, as \<^verbatim>\<open>!==\<close> has it (no price read from a JSON document is NaN); in
  force-full mode both updates for every SKU of the view; for a SKU of the previous state that is absent from the view, an inventory update of
  0 and an item update with enabled = false and no price, and the new state entry of that SKU
  is quantity 0, enabled false, previous price; for any other SKU nothing.
\<close>

theorem detectChanges_exact:
  assumes "distinct (map fst previousState)"
  shows
   "(map_of (buildWoltData inventoryItems details) sku = Some d \<and>
     map_of previousState sku = None \<longrightarrow>
       itemUpdatesFor sku
         (detectChanges forceFull False now previousState
            (buildWoltData inventoryItems details))
         = [\<lparr> item_sku = sku, item_enabled = Some (data_enabled d),
              item_price = data_price d \<rparr>] \<and>
       inventoryUpdatesFor sku
         (detectChanges forceFull False now previousState
            (buildWoltData inventoryItems details))
         = [\<lparr> inv_sku = sku, inventory = data_quantity d \<rparr>]) \<and>
    (map_of (buildWoltData inventoryItems details) sku = Some d \<and>
     map_of previousState sku = Some p \<and> \<not> forceFull \<longrightarrow>
       inventoryUpdatesFor sku
         (detectChanges forceFull False now previousState
            (buildWoltData inventoryItems details))
         = (if quantity p \<noteq> data_quantity d
            then [\<lparr> inv_sku = sku, inventory = data_quantity d \<rparr>] else []) \<and>
       itemUpdatesFor sku
         (detectChanges forceFull False now previousState
            (buildWoltData inventoryItems details))
         = (if enabled p \<noteq> data_enabled d \<or> price p \<noteq> data_price d \<or>
               data_price d = Number NaN
            then [\<lparr> item_sku = sku, item_enabled = Some (data_enabled d),
                    item_price = data_price d \<rparr>] else [])) \<and>
    (map_of (buildWoltData inventoryItems details) sku = Some d \<and> forceFull \<longrightarrow>
       itemUpdatesFor sku
         (detectChanges forceFull False now previousState
            (buildWoltData inventoryItems details))
         = [\<lparr> item_sku = sku, item_enabled = Some (data_enabled d),
              item_price = data_price d \<rparr>] \<and>
       inventoryUpdatesFor sku
         (detectChanges forceFull False now previousState
            (buildWoltData inventoryItems details))
         = [\<lparr> inv_sku = sku, inventory = data_quantity d \<rparr>]) \<and>
    (map_of (buildWoltData inventoryItems details) sku = None \<and>
     map_of previousState sku = Some p \<longrightarrow>
       inventoryUpdatesFor sku
         (detectChanges forceFull False now previousState
            (buildWoltData inventoryItems details))
         = [\<lparr> inv_sku = sku, inventory = 0 \<rparr>] \<and>
       itemUpdatesFor sku
         (detectChanges forceFull False now previousState
            (buildWoltData inventoryItems details))
         = [\<lparr> item_sku = sku, item_enabled = Some False, item_price = Undefined \<rparr>] \<and>
       map_of (newState
         (detectChanges forceFull False now previousState
            (buildWoltData inventoryItems details))) sku
         = Some \<lparr> quantity = 0, enabled = False, price = price p, lastSeen = now,
                  syncedToWolt = False \<rparr>) \<and>
    (map_of (buildWoltData inventoryItems details) sku = None \<and>
     map_of previousState sku = None \<longrightarrow>
       inventoryUpdatesFor sku
         (detectChanges forceFull False now previousState
            (buildWoltData inventoryItems details)) = [] \<and>
       itemUpdatesFor sku
         (detectChanges forceFull False now previousState
            (buildWoltData inventoryItems details)) = [])"
proof -
  let ?wd = "buildWoltData inventoryItems details"
  note d = buildWoltData_distinct [of inventoryItems details]
  note items = detectChanges_itemUpdatesFor [OF d assms]
  note invs = detectChanges_inventoryUpdatesFor [OF d assms]
  note st = detectChanges_newState [OF d assms]
  show ?thesis
  proof (intro conjI impI)
    assume "map_of ?wd sku = Some d \<and> map_of previousState sku = None"
    then show "itemUpdatesFor sku (detectChanges forceFull False now previousState ?wd)
         = [\<lparr> item_sku = sku, item_enabled = Some (data_enabled d),
              item_price = data_price d \<rparr>]"
      and "inventoryUpdatesFor sku (detectChanges forceFull False now previousState ?wd)
         = [\<lparr> inv_sku = sku, inventory = data_quantity d \<rparr>]"
      by (simp_all add: items invs diffSku_def emptyChanges_def Let_def)
  next
    assume "map_of ?wd sku = Some d \<and> map_of previousState sku = Some p \<and> \<not> forceFull"
    then show "inventoryUpdatesFor sku (detectChanges forceFull False now previousState ?wd)
         = (if quantity p \<noteq> data_quantity d
            then [\<lparr> inv_sku = sku, inventory = data_quantity d \<rparr>] else [])"
      and "itemUpdatesFor sku (detectChanges forceFull False now previousState ?wd)
         = (if enabled p \<noteq> data_enabled d \<or> price p \<noteq> data_price d \<or>
               data_price d = Number NaN
            then [\<lparr> item_sku = sku, item_enabled = Some (data_enabled d),
                    item_price = data_price d \<rparr>] else [])"
      by (auto simp add: items invs diffSku_def missingSku_def emptyChanges_def Let_def
          strict_ne_def)
  next
    assume "map_of ?wd sku = Some d \<and> forceFull"
    then show "itemUpdatesFor sku (detectChanges forceFull False now previousState ?wd)
         = [\<lparr> item_sku = sku, item_enabled = Some (data_enabled d),
              item_price = data_price d \<rparr>]"
      and "inventoryUpdatesFor sku (detectChanges forceFull False now previousState ?wd)
         = [\<lparr> inv_sku = sku, inventory = data_quantity d \<rparr>]"
      by (simp_all add: items invs diffSku_def missingSku_def emptyChanges_def Let_def
          split: option.splits)
  next
    assume a: "map_of ?wd sku = None \<and> map_of previousState sku = Some p"
    then show "inventoryUpdatesFor sku (detectChanges forceFull False now previousState ?wd)
         = [\<lparr> inv_sku = sku, inventory = 0 \<rparr>]"
      and "itemUpdatesFor sku (detectChanges forceFull False now previousState ?wd)
         = [\<lparr> item_sku = sku, item_enabled = Some False, item_price = Undefined \<rparr>]"
      by (simp_all add: items invs missingSku_def emptyChanges_def Let_def)
    from a show "map_of (newState (detectChanges forceFull False now previousState ?wd)) sku
         = Some \<lparr> quantity = 0, enabled = False, price = price p, lastSeen = now,
                  syncedToWolt = False \<rparr>"
      by (simp add: st)
  next
    assume "map_of ?wd sku = None \<and> map_of previousState sku = None"
    then show "inventoryUpdatesFor sku (detectChanges forceFull False now previousState ?wd)
         = []"
      and "itemUpdatesFor sku (detectChanges forceFull False now previousState ?wd) = []"
      by (simp_all add: items invs)
  qed
qed

lemma sample_view:
  "buildWoltData sample_inventory sample_details =
     [(''A'', \<lparr> data_quantity = 5, data_price = Number (Fin 100), data_enabled = True \<rparr>),
      (''B'', \<lparr> data_quantity = 0, data_price = Number (Fin 200), data_enabled = False \<rparr>)]"
  by (simp add: buildWoltData_def addProduct_def mapToWoltSku_def skuPairs_def map_get_def
      sample_inventory_def sample_details_def)

theorem detectChanges_exact_witness:
  "inventoryUpdatesFor ''A''
     (detectChanges False False 1000 sample_previousState
        (buildWoltData sample_inventory sample_details))
     = [\<lparr> inv_sku = ''A'', inventory = 5 \<rparr>] \<and>
   itemUpdatesFor ''A''
     (detectChanges False False 1000 sample_previousState
        (buildWoltData sample_inventory sample_details)) = [] \<and>
   itemUpdatesFor ''B''
     (detectChanges False False 1000 sample_previousState
        (buildWoltData sample_inventory sample_details))
     = [\<lparr> item_sku = ''B'', item_enabled = Some False, item_price = Number (Fin 200) \<rparr>] \<and>
   inventoryUpdatesFor ''B''
     (detectChanges False False 1000 sample_previousState
        (buildWoltData sample_inventory sample_details))
     = [\<lparr> inv_sku = ''B'', inventory = 0 \<rparr>] \<and>
   itemUpdatesFor ''A''
     (detectChanges True False 1000 sample_previousState
        (buildWoltData sample_inventory sample_details))
     = [\<lparr> item_sku = ''A'', item_enabled = Some True, item_price = Number (Fin 100) \<rparr>] \<and>
   itemUpdatesFor ''Z''
     (detectChanges False False 1000 sample_previousState
        (buildWoltData sample_inventory sample_details))
     = [\<lparr> item_sku = ''Z'', item_enabled = Some False, item_price = Undefined \<rparr>] \<and>
   inventoryUpdatesFor ''Z''
     (detectChanges False False 1000 sample_previousState
        (buildWoltData sample_inventory sample_details))
     = [\<lparr> inv_sku = ''Z'', inventory = 0 \<rparr>] \<and>
   map_of (newState
     (detectChanges False False 1000 sample_previousState
        (buildWoltData sample_inventory sample_details))) ''Z''
     = Some \<lparr> quantity = 0, enabled = False, price = Number (Fin 50), lastSeen = 1000,
              syncedToWolt = False \<rparr> \<and>
   itemUpdatesFor ''Q''
     (detectChanges False False 1000 sample_previousState
        (buildWoltData sample_inventory sample_details)) = [] \<and>
   itemUpdatesFor ''A''
     (detectChanges False False 1000 repriced_previousState
        (buildWoltData sample_inventory sample_details))
     = [\<lparr> item_sku = ''A'', item_enabled = Some True, item_price = Number (Fin 100) \<rparr>] \<and>
   inventoryUpdatesFor ''A''
     (detectChanges False False 1000 repriced_previousState
        (buildWoltData sample_inventory sample_details)) = [] \<and>
   itemUpdatesFor ''B''
     (detectChanges False False 1000 repriced_previousState
        (buildWoltData sample_inventory sample_details))
     = [\<lparr> item_sku = ''B'', item_enabled = Some False, item_price = Number (Fin 200) \<rparr>] \<and>
   inventoryUpdatesFor ''B''
     (detectChanges False False 1000 repriced_previousState
        (buildWoltData sample_inventory sample_details)) = []"
proof -
  have dist: "distinct (map fst sample_previousState)"
    by (simp add: sample_previousState_def)
  have dist': "distinct (map fst repriced_previousState)"
    by (simp add: repriced_previousState_def)
  note inst = detectChanges_exact [OF dist, where inventoryItems = sample_inventory
      and details = sample_details and now = 1000]
  note inst' = detectChanges_exact [OF dist', where inventoryItems = sample_inventory
      and details = sample_details and now = 1000]
  show ?thesis
    using
      inst' [where sku = "''A''" and forceFull = False
          and d = "\<lparr> data_quantity = 5, data_price = Number (Fin 100), data_enabled = True \<rparr>"
          and p = "\<lparr> quantity = 5, enabled = True, price = Number (Fin 90), lastSeen = 1,
                    syncedToWolt = False \<rparr>"]
      inst' [where sku = "''B''" and forceFull = False
          and d = "\<lparr> data_quantity = 0, data_price = Number (Fin 200), data_enabled = False \<rparr>"
          and p = "\<lparr> quantity = 0, enabled = True, price = Number (Fin 200), lastSeen = 1,
                    syncedToWolt = False \<rparr>"]
      inst [where sku = "''A''" and forceFull = False
          and d = "\<lparr> data_quantity = 5, data_price = Number (Fin 100), data_enabled = True \<rparr>"
          and p = "\<lparr> quantity = 10, enabled = True, price = Number (Fin 100), lastSeen = 1,
                    syncedToWolt = False \<rparr>"]
      inst [where sku = "''B''" and forceFull = False
          and d = "\<lparr> data_quantity = 0, data_price = Number (Fin 200), data_enabled = False \<rparr>"]
      inst [where sku = "''A''" and forceFull = True
          and d = "\<lparr> data_quantity = 5, data_price = Number (Fin 100), data_enabled = True \<rparr>"]
      inst [where sku = "''Z''" and forceFull = False
          and p = "\<lparr> quantity = 4, enabled = True, price = Number (Fin 50), lastSeen = 1,
                    syncedToWolt = False \<rparr>"]
      inst [where sku = "''Q''" and forceFull = False]
    by (simp add: sample_view sample_previousState_def repriced_previousState_def)
qed

section \<open>Properties of the run\<close>

text \<open>
  Claim C2. If the SoT inventory fetch returns zero items, or the product-details fetch
  returns fewer records than there are inventory ids, the run calls neither marketplace
  endpoint and never calls \<^verbatim>\<open>saveState\<close>, so the persisted per-store state is unchanged;
  for an enabled store the run ends as an error (recorded and returned for the empty
  inventory, thrown for the short response).
\<close>

theorem run_guards_partial_view:
  "(inventoryResult inp = Inr [] \<or>
    (inventoryResult inp = Inr inventoryItems \<and> detailsResult inp = Inr details \<and>
     length details < length inventoryItems)) \<longrightarrow>
   marketplaceCalls (snd (runWithOptions inp opts)) = [] \<and>
   stateWrites (snd (runWithOptions inp opts)) = [] \<and>
   (storeEnabled inp \<longrightarrow> fst (runWithOptions inp opts) \<noteq> Completed)"
  by (auto simp: runWithOptions_def Let_def)

theorem run_guards_partial_view_witness:
  "marketplaceCalls (snd (runWithOptions (sample_input\<lparr> inventoryResult := Inr [] \<rparr>)
      \<lparr> dryRun = False, limit = None, forceFullSync = False, bootstrapState = False \<rparr>)) = [] \<and>
   stateWrites (snd (runWithOptions (sample_input\<lparr> inventoryResult := Inr [] \<rparr>)
      \<lparr> dryRun = False, limit = None, forceFullSync = False, bootstrapState = False \<rparr>)) = [] \<and>
   fst (runWithOptions (sample_input\<lparr> inventoryResult := Inr [] \<rparr>)
      \<lparr> dryRun = False, limit = None, forceFullSync = False, bootstrapState = False \<rparr>)
     = Aborted ''No inventory returned'' \<and>
   marketplaceCalls (snd (runWithOptions (sample_input\<lparr> detailsResult := Inr (tl sample_details) \<rparr>)
      \<lparr> dryRun = False, limit = None, forceFullSync = True, bootstrapState = False \<rparr>)) = [] \<and>
   stateWrites (snd (runWithOptions (sample_input\<lparr> detailsResult := Inr (tl sample_details) \<rparr>)
      \<lparr> dryRun = False, limit = None, forceFullSync = True, bootstrapState = False \<rparr>)) = [] \<and>
   fst (runWithOptions (sample_input\<lparr> detailsResult := Inr (tl sample_details) \<rparr>)
      \<lparr> dryRun = False, limit = None, forceFullSync = True, bootstrapState = False \<rparr>)
     = Thrown ''Partial product details received from Fina''"
  using
    run_guards_partial_view
      [of "sample_input\<lparr> inventoryResult := Inr [] \<rparr>" _ _
          "\<lparr> dryRun = False, limit = None, forceFullSync = False, bootstrapState = False \<rparr>"]
    run_guards_partial_view
      [of "sample_input\<lparr> detailsResult := Inr (tl sample_details) \<rparr>" sample_inventory
          "tl sample_details"
          "\<lparr> dryRun = False, limit = None, forceFullSync = True, bootstrapState = False \<rparr>"]
  by (simp add: sample_input_def sample_inventory_def sample_details_def runWithOptions_def)

lemma marketplaceCalls_append:
  "marketplaceCalls (xs @ ys) = marketplaceCalls xs @ marketplaceCalls ys"
  by (induction xs rule: marketplaceCalls.induct) simp_all

lemma stateWrites_append: "stateWrites (xs @ ys) = stateWrites xs @ stateWrites ys"
  by (induction xs rule: stateWrites.induct) simp_all

lemma updateSyncedState_limit: "limitSet lmt \<Longrightarrow> updateSyncedState dry lmt ns skus st = st"
  by (simp add: updateSyncedState_def)

lemma updateSyncedState_calls:
  "marketplaceCalls (events (updateSyncedState dry lmt ns skus st)) = marketplaceCalls (events st)"
  by (simp add: updateSyncedState_def Let_def marketplaceCalls_append)

lemma sendBatches_limit_writes:
  "limitSet lmt \<Longrightarrow>
   stateWrites (events (snd (sendBatches ok dry lmt ns bs st))) = stateWrites (events st)"
  by (induction bs arbitrary: st) (simp_all add: updateSyncedState_limit stateWrites_append)

lemma sendBatches_calls_prefix:
  "\<exists>k. marketplaceCalls (events (snd (sendBatches ok dry lmt ns bs st))) =
        marketplaceCalls (events st) @ take k bs"
proof (induction bs arbitrary: st)
  case Nil
  then show ?case by simp
next
  case (Cons b bs)
  show ?case
  proof (cases "ok (callCount st)")
    case True
    let ?st' = "updateSyncedState dry lmt ns (skusOf b)
                  (st\<lparr> callCount := callCount st + 1,
                       events := events st @ [WoltCall b True] \<rparr>)"
    from Cons.IH [of ?st'] obtain k where
      "marketplaceCalls (events (snd (sendBatches ok dry lmt ns bs ?st'))) =
         marketplaceCalls (events ?st') @ take k bs" ..
    then have "marketplaceCalls (events (snd (sendBatches ok dry lmt ns (b # bs) st))) =
         marketplaceCalls (events st) @ take (Suc k) (b # bs)"
      using True by (simp add: updateSyncedState_calls marketplaceCalls_append)
    then show ?thesis ..
  next
    case False
    then have "marketplaceCalls (events (snd (sendBatches ok dry lmt ns (b # bs) st))) =
         marketplaceCalls (events st) @ take (Suc 0) (b # bs)"
      by (simp add: marketplaceCalls_append)
    then show ?thesis ..
  qed
qed

lemma length_concat_take: "length (concat (take k xss)) \<le> length (concat xss)"
proof -
  have "concat xss = concat (take k xss) @ concat (drop k xss)"
    by (metis append_take_drop_id concat_append)
  then show ?thesis by (metis le_add1 length_append)
qed

lemma concat_chunks: "concat (chunks n xs) = (if n = 0 then [] else xs)"
proof (induction n xs rule: chunks.induct)
  case (1 n xs)
  show ?case
  proof (cases "n = 0 \<or> xs = []")
    case True
    then show ?thesis by (auto simp: chunks.simps [of n xs])
  next
    case False
    with 1 show ?thesis by (simp add: chunks.simps [of n xs])
  qed
qed

lemma applyLimit_length: "0 < n \<Longrightarrow> length (applyLimit (Some n) xs) \<le> nat n"
  by (auto simp: applyLimit_def slice0_def)

lemma phase1_calls:
  "\<exists>k. marketplaceCalls (events (snd (phase1 inp opts n ns itemUpd st))) =
     marketplaceCalls (events st) @ map Items (take k (chunks n itemUpd))"
proof (cases "itemUpd \<noteq> [] \<and> \<not> dryRun opts")
  case True
  obtain k where "marketplaceCalls (events (snd (sendBatches (woltOk inp) (dryRun opts)
        (limit opts) ns (map Items (chunks n itemUpd)) st))) =
      marketplaceCalls (events st) @ take k (map Items (chunks n itemUpd))"
    using sendBatches_calls_prefix by blast
  with True have "marketplaceCalls (events (snd (phase1 inp opts n ns itemUpd st))) =
     marketplaceCalls (events st) @ map Items (take k (chunks n itemUpd))"
    by (simp add: phase1_def take_map)
  then show ?thesis ..
next
  case False
  then have "marketplaceCalls (events (snd (phase1 inp opts n ns itemUpd st))) =
     marketplaceCalls (events st) @ map Items (take 0 (chunks n itemUpd))"
    by (auto simp: phase1_def)
  then show ?thesis ..
qed

lemma phase2_calls:
  "\<exists>k. marketplaceCalls (events (snd (phase2 inp opts n ns invUpd st))) =
     marketplaceCalls (events st) @ map Inventory (take k (chunks n invUpd))"
proof (cases "invUpd \<noteq> [] \<and> \<not> dryRun opts")
  case True
  obtain k where "marketplaceCalls (events (snd (sendBatches (woltOk inp) (dryRun opts)
        (limit opts) ns (map Inventory (chunks n invUpd)) st))) =
      marketplaceCalls (events st) @ take k (map Inventory (chunks n invUpd))"
    using sendBatches_calls_prefix by blast
  with True have "marketplaceCalls (events (snd (phase2 inp opts n ns invUpd st))) =
     marketplaceCalls (events st) @ map Inventory (take k (chunks n invUpd))"
    by (simp add: phase2_def take_map)
  then show ?thesis ..
next
  case False
  then have "marketplaceCalls (events (snd (phase2 inp opts n ns invUpd st))) =
     marketplaceCalls (events st) @ map Inventory (take 0 (chunks n invUpd))"
    by (auto simp: phase2_def)
  then show ?thesis ..
qed

text \<open>The events of \<open>executeSync\<close> are those of phase 1, or those of phase 2 after phase 1,
  followed or not by the final save.\<close>

lemma executeSync_events:
  "snd (executeSync inp opts u c) = events (snd (phase1 inp opts
       (nat (fst (resolveBatchConfig (newSyncEngine (environment inp)) (environment inp)
                   (storeId inp) u)))
       (newState c) (applyLimit (limit opts) (itemUpdates c))
       \<lparr> callCount = 0, prevState = loadedState inp, events = [] \<rparr>))
   \<or> (\<exists>tl. (tl = [] \<or> tl = [SaveState (newState c)] \<and> \<not> dryRun opts \<and> \<not> limitSet (limit opts)
               \<and> fst (executeSync inp opts u c) = Completed) \<and>
       snd (executeSync inp opts u c) =
         events (snd (phase2 inp opts
           (nat (fst (resolveBatchConfig (newSyncEngine (environment inp)) (environment inp)
                   (storeId inp) u)))
           (newState c) (applyLimit (limit opts) (inventoryUpdates c))
           (snd (phase1 inp opts
             (nat (fst (resolveBatchConfig (newSyncEngine (environment inp)) (environment inp)
                   (storeId inp) u)))
             (newState c) (applyLimit (limit opts) (itemUpdates c))
             \<lparr> callCount = 0, prevState = loadedState inp, events = [] \<rparr>)))) @ tl)"
  by (auto simp: executeSync_def Let_def split: prod.splits option.splits)

text \<open>The calls of a run: some first batches of the item updates, then some first batches of
  the inventory updates.\<close>

lemma executeSync_calls:
  "\<exists>k1 k2. marketplaceCalls (snd (executeSync inp opts u c)) =
     map Items (take k1 (chunks
        (nat (fst (resolveBatchConfig (newSyncEngine (environment inp))
                     (environment inp) (storeId inp) u)))
        (applyLimit (limit opts) (itemUpdates c)))) @
     map Inventory (take k2 (chunks
        (nat (fst (resolveBatchConfig (newSyncEngine (environment inp))
                     (environment inp) (storeId inp) u)))
        (applyLimit (limit opts) (inventoryUpdates c))))"
proof -
  let ?n = "nat (fst (resolveBatchConfig (newSyncEngine (environment inp))
                     (environment inp) (storeId inp) u))"
  let ?is = "chunks ?n (applyLimit (limit opts) (itemUpdates c))"
  let ?vs = "chunks ?n (applyLimit (limit opts) (inventoryUpdates c))"
  let ?st0 = "\<lparr> callCount = 0, prevState = loadedState inp, events = [] \<rparr>"
  let ?p1 = "phase1 inp opts ?n (newState c) (applyLimit (limit opts) (itemUpdates c)) ?st0"
  let ?p2 = "phase2 inp opts ?n (newState c) (applyLimit (limit opts) (inventoryUpdates c))
               (snd ?p1)"
  obtain k1 where k1: "marketplaceCalls (events (snd ?p1)) = map Items (take k1 ?is)"
    using phase1_calls [of inp opts ?n "newState c" _ ?st0] by auto
  obtain k2 where k2: "marketplaceCalls (events (snd ?p2)) =
     map Items (take k1 ?is) @ map Inventory (take k2 ?vs)"
    using phase2_calls [of inp opts ?n "newState c" _ "snd ?p1"] k1 by auto
  have "marketplaceCalls (snd (executeSync inp opts u c)) =
          map Items (take k1 ?is) @ map Inventory (take 0 ?vs) \<or>
        marketplaceCalls (snd (executeSync inp opts u c)) =
          map Items (take k1 ?is) @ map Inventory (take k2 ?vs)"
    using k1 k2 executeSync_events [of inp opts u c]
    by (auto simp: marketplaceCalls_append)
  then show ?thesis by blast
qed

lemma payloadItems_Items: "concat (map payloadItems (map Items bs)) = concat bs"
  by (induction bs) simp_all

lemma payloadItems_Inventory: "concat (map payloadItems (map Inventory bs)) = []"
  by (induction bs) simp_all

lemma payloadInventory_Items: "concat (map payloadInventory (map Items bs)) = []"
  by (induction bs) simp_all

lemma payloadInventory_Inventory: "concat (map payloadInventory (map Inventory bs)) = concat bs"
  by (induction bs) simp_all

lemma length_concat_take_chunks: "length (concat (take k (chunks n xs))) \<le> length xs"
proof (cases "n = 0")
  case True
  then show ?thesis by (simp add: chunks.simps [of 0 xs])
next
  case False
  then show ?thesis
    using length_concat_take [of k "chunks n xs"] by (simp add: concat_chunks)
qed

lemma phase1_limit_writes:
  "limitSet (limit opts) \<Longrightarrow>
   stateWrites (events (snd (phase1 inp opts n ns xs st))) = stateWrites (events st)"
  by (simp add: phase1_def sendBatches_limit_writes)

lemma phase2_limit_writes:
  "limitSet (limit opts) \<Longrightarrow>
   stateWrites (events (snd (phase2 inp opts n ns xs st))) = stateWrites (events st)"
  by (simp add: phase2_def sendBatches_limit_writes)

lemma executeSync_limited:
  assumes "limit opts = Some n" "0 < n"
  shows "length (itemsSent (snd (executeSync inp opts u c))) \<le> nat n"
    and "length (inventorySent (snd (executeSync inp opts u c))) \<le> nat n"
    and "stateWrites (snd (executeSync inp opts u c)) = []"
proof -
  let ?n = "nat (fst (resolveBatchConfig (newSyncEngine (environment inp))
                     (environment inp) (storeId inp) u))"
  obtain k1 k2 where calls: "marketplaceCalls (snd (executeSync inp opts u c)) =
     map Items (take k1 (chunks ?n (applyLimit (limit opts) (itemUpdates c)))) @
     map Inventory (take k2 (chunks ?n (applyLimit (limit opts) (inventoryUpdates c))))"
    using executeSync_calls by blast
  have "length (itemsSent (snd (executeSync inp opts u c))) \<le>
          length (applyLimit (limit opts) (itemUpdates c))"
    by (simp add: itemsSent_def calls payloadItems_Items payloadItems_Inventory
        length_concat_take_chunks del: map_map)
  then show "length (itemsSent (snd (executeSync inp opts u c))) \<le> nat n"
    using applyLimit_length [OF assms(2), of "itemUpdates c"] assms(1) by simp
  have "length (inventorySent (snd (executeSync inp opts u c))) \<le>
          length (applyLimit (limit opts) (inventoryUpdates c))"
    by (simp add: inventorySent_def calls payloadInventory_Items payloadInventory_Inventory
        length_concat_take_chunks del: map_map)
  then show "length (inventorySent (snd (executeSync inp opts u c))) \<le> nat n"
    using applyLimit_length [OF assms(2), of "inventoryUpdates c"] assms(1) by simp
  have lim: "limitSet (limit opts)"
    using assms by (simp add: limitSet_def)
  show "stateWrites (snd (executeSync inp opts u c)) = []"
    using executeSync_events [of inp opts u c] lim
    by (auto simp: phase1_limit_writes phase2_limit_writes stateWrites_append)
qed

text \<open>
  Claim C8, as the code has it. For every non-bootstrap sync run invoked with a positive
  limit, the item-update and inventory-update arrays are each truncated to at most
  \<open>limit\<close> entries, so at most \<open>limit\<close> updates of each kind are sent, and the run never
  calls \<^verbatim>\<open>saveState\<close>: neither the final state map nor any per-batch progress is persisted
  (\<^verbatim>\<open>updateSyncedState\<close> returns at once when a limit is set).
\<close>

theorem limited_run:
  "limit opts = Some n \<and> 0 < n \<and> \<not> bootstrapState opts \<longrightarrow>
     length (applyLimit (limit opts) (itemUpdates c)) \<le> nat n \<and>
     length (applyLimit (limit opts) (inventoryUpdates c)) \<le> nat n \<and>
     length (itemsSent (snd (runWithOptions inp opts))) \<le> nat n \<and>
     length (inventorySent (snd (runWithOptions inp opts))) \<le> nat n \<and>
     stateWrites (snd (runWithOptions inp opts)) = []"
proof (intro impI)
  assume a: "limit opts = Some n \<and> 0 < n \<and> \<not> bootstrapState opts"
  then have l: "limit opts = Some n" and n: "0 < n" and nb: "\<not> bootstrapState opts"
    by simp_all
  have run: "snd (runWithOptions inp opts) = [] \<or>
    (\<exists>u c'. snd (runWithOptions inp opts) = snd (executeSync inp opts u c'))"
    using nb by (auto simp: runWithOptions_def Let_def split: sum.splits)
  have sent: "length (itemsSent (snd (runWithOptions inp opts))) \<le> nat n \<and>
     length (inventorySent (snd (runWithOptions inp opts))) \<le> nat n \<and>
     stateWrites (snd (runWithOptions inp opts)) = []"
    using run executeSync_limited [OF l n, of inp]
    by (auto simp: itemsSent_def inventorySent_def)
  show "length (applyLimit (limit opts) (itemUpdates c)) \<le> nat n \<and>
     length (applyLimit (limit opts) (inventoryUpdates c)) \<le> nat n \<and>
     length (itemsSent (snd (runWithOptions inp opts))) \<le> nat n \<and>
     length (inventorySent (snd (runWithOptions inp opts))) \<le> nat n \<and>
     stateWrites (snd (runWithOptions inp opts)) = []"
    using sent applyLimit_length [OF n, of "itemUpdates c"]
      applyLimit_length [OF n, of "inventoryUpdates c"] l by simp
qed

lemma sample_changes:
  "detectChanges False False 1000 sample_previousState
     (buildWoltData sample_inventory sample_details) =
   \<lparr> inventoryUpdates =
       [\<lparr> inv_sku = ''A'', inventory = 5 \<rparr>, \<lparr> inv_sku = ''B'', inventory = 0 \<rparr>,
        \<lparr> inv_sku = ''Z'', inventory = 0 \<rparr>],
     itemUpdates =
       [\<lparr> item_sku = ''B'', item_enabled = Some False, item_price = Number (Fin 200) \<rparr>,
        \<lparr> item_sku = ''Z'', item_enabled = Some False, item_price = Undefined \<rparr>],
     newState =
       [(''A'', \<lparr> quantity = 5, enabled = True, price = Number (Fin 100), lastSeen = 1000,
                 syncedToWolt = False \<rparr>),
        (''B'', \<lparr> quantity = 0, enabled = False, price = Number (Fin 200), lastSeen = 1000,
                 syncedToWolt = False \<rparr>),
        (''Z'', \<lparr> quantity = 0, enabled = False, price = Number (Fin 50), lastSeen = 1000,
                 syncedToWolt = False \<rparr>)],
     newItemCount = 1, missingItemCount = 1 \<rparr>"
  by (simp add: sample_view detectChanges_def diffSku_def missingSku_def
      sample_previousState_def strict_ne_def Let_def)

lemma sample_batch_size:
  "resolveBatchConfig (newSyncEngine (\<lambda>k. None)) (\<lambda>k. None) sid first =
     (if first then (1, 10000) else (50, 2000))"
  by (simp add: resolveBatchConfig_def newSyncEngine_def readPositiveInt_def orElse_def
      env_or_def parseInt_def Let_def)

lemma sample_lengths:
  "length sample_previousState = 2" "length sample_inventory = 2" "length sample_details = 2"
  "sample_previousState \<noteq> []" "sample_inventory \<noteq> []" "sample_details \<noteq> []"
  by (simp_all add: sample_previousState_def sample_inventory_def sample_details_def)

text \<open>
  Claim C8 as stated fails in its last part: in this run with limit 1 both batches are
  acknowledged by the marketplace, and no state is persisted after either of them.
\<close>

theorem limited_run_no_progress_counterexample:
  "runWithOptions sample_input
     \<lparr> dryRun = False, limit = Some 1, forceFullSync = False, bootstrapState = False \<rparr>
   = (Completed,
      [WoltCall (Items [\<lparr> item_sku = ''B'', item_enabled = Some False,
                          item_price = Number (Fin 200) \<rparr>]) True,
       WoltCall (Inventory [\<lparr> inv_sku = ''A'', inventory = 5 \<rparr>]) True]) \<and>
   stateWrites (snd (runWithOptions sample_input
     \<lparr> dryRun = False, limit = Some 1, forceFullSync = False, bootstrapState = False \<rparr>)) = []"
  by (simp add: runWithOptions_def executeSync_def phase1_def phase2_def sample_input_def
      sample_changes sample_batch_size sample_lengths applyLimit_def slice0_def chunks.simps
      limitSet_def updateSyncedState_def Let_def)

theorem limited_run_witness:
  "length (itemsSent (snd (runWithOptions sample_input
     \<lparr> dryRun = False, limit = Some 1, forceFullSync = False, bootstrapState = False \<rparr>))) \<le> 1 \<and>
   length (inventorySent (snd (runWithOptions sample_input
     \<lparr> dryRun = False, limit = Some 1, forceFullSync = False, bootstrapState = False \<rparr>))) \<le> 1 \<and>
   stateWrites (snd (runWithOptions sample_input
     \<lparr> dryRun = False, limit = Some 1, forceFullSync = False, bootstrapState = False \<rparr>)) = []"
  using limited_run
    [of "\<lparr> dryRun = False, limit = Some 1, forceFullSync = False, bootstrapState = False \<rparr>"
        1 emptyChanges sample_input]
  by simp

section \<open>Properties of State entries and confirmed SKUs\<close>

lemma pushedSkus_append: "pushedSkus (xs @ ys) = pushedSkus xs \<union> pushedSkus ys"
  by (induction xs rule: pushedSkus.induct) auto

lemma savesConfirmed_append:
  "savesConfirmed K (xs @ ys) \<longleftrightarrow>
     savesConfirmed K xs \<and> savesConfirmed (K \<union> pushedSkus xs) ys"
proof (induction K xs rule: savesConfirmed.induct)
  case (1 known)
  then show ?case by simp
next
  case (2 known p ok evs)
  then show ?case by (simp add: Un_assoc)
next
  case (3 known s evs)
  then show ?case by auto
qed

lemma foldl_update_keys:
  "fst ` set (foldl (\<lambda>prev sku. case map_of ns sku of
                                   Some current \<Rightarrow> AList.update sku current prev
                                 | None \<Rightarrow> prev) prev skus)
   \<subseteq> fst ` set prev \<union> set skus"
proof (induction skus arbitrary: prev)
  case Nil
  then show ?case by simp
next
  case (Cons sku skus)
  have "fst ` set (case map_of ns sku of Some current \<Rightarrow> AList.update sku current prev
                   | None \<Rightarrow> prev) \<subseteq> fst ` set prev \<union> {sku}"
    by (auto simp: dom_update split: option.splits)
  with Cons.IH [of "case map_of ns sku of Some current \<Rightarrow> AList.update sku current prev
                   | None \<Rightarrow> prev"]
  show ?case by auto
qed

lemma updateSyncedState_inv:
  assumes "pushInv K st" "set skus \<subseteq> pushedSkus (events st)"
  shows "pushInv K (updateSyncedState dry lmt ns skus st)"
proof (cases "dry \<or> limitSet lmt")
  case True
  with assms show ?thesis by (simp add: updateSyncedState_def)
next
  case False
  let ?prev' = "foldl (\<lambda>prev sku. case map_of ns sku of
                                   Some current \<Rightarrow> AList.update sku current prev
                                 | None \<Rightarrow> prev) (prevState st) skus"
  have keys: "fst ` set ?prev' \<subseteq> K \<union> pushedSkus (events st)"
    using foldl_update_keys [of ns "prevState st" skus] assms
    by (auto simp: pushInv_def)
  with False assms(1) show ?thesis
    by (simp add: updateSyncedState_def pushInv_def Let_def savesConfirmed_append
        pushedSkus_append)
qed

lemma sendBatches_inv:
  "pushInv K st \<Longrightarrow> pushInv K (snd (sendBatches ok dry lmt ns bs st))"
proof (induction bs arbitrary: st)
  case Nil
  then show ?case by simp
next
  case (Cons b bs)
  show ?case
  proof (cases "ok (callCount st)")
    case True
    let ?st1 = "st\<lparr> callCount := callCount st + 1, events := events st @ [WoltCall b True] \<rparr>"
    have "pushInv K ?st1"
      using Cons.prems by (auto simp: pushInv_def savesConfirmed_append pushedSkus_append)
    moreover have "set (skusOf b) \<subseteq> pushedSkus (events ?st1)"
      by (simp add: pushedSkus_append)
    ultimately have "pushInv K (updateSyncedState dry lmt ns (skusOf b) ?st1)"
      by (rule updateSyncedState_inv)
    from Cons.IH [OF this] True show ?thesis by simp
  next
    case False
    with Cons.prems show ?thesis
      by (auto simp: pushInv_def savesConfirmed_append pushedSkus_append)
  qed
qed

lemma updateSyncedState_pushed:
  "pushedSkus (events (updateSyncedState dry lmt ns skus st)) = pushedSkus (events st)"
  by (simp add: updateSyncedState_def Let_def pushedSkus_append)

lemma sendBatches_pushed_mono:
  "pushedSkus (events st) \<subseteq> pushedSkus (events (snd (sendBatches ok dry lmt ns bs st)))"
proof (induction bs arbitrary: st)
  case Nil
  then show ?case by simp
next
  case (Cons b bs)
  show ?case
  proof (cases "ok (callCount st)")
    case True
    let ?st2 = "updateSyncedState dry lmt ns (skusOf b)
        (st\<lparr> callCount := callCount st + 1, events := events st @ [WoltCall b True] \<rparr>)"
    have "pushedSkus (events st) \<subseteq> pushedSkus (events ?st2)"
      by (simp add: updateSyncedState_pushed pushedSkus_append)
    with Cons.IH [of ?st2] True show ?thesis by auto
  next
    case False
    then show ?thesis by (simp add: pushedSkus_append)
  qed
qed

lemma sendBatches_all_pushed:
  "fst (sendBatches ok dry lmt ns bs st) = None \<Longrightarrow>
   (\<Union>b \<in> set bs. set (skusOf b))
     \<subseteq> pushedSkus (events (snd (sendBatches ok dry lmt ns bs st)))"
proof (induction bs arbitrary: st)
  case Nil
  then show ?case by simp
next
  case (Cons b bs)
  show ?case
  proof (cases "ok (callCount st)")
    case True
    let ?st2 = "updateSyncedState dry lmt ns (skusOf b)
        (st\<lparr> callCount := callCount st + 1, events := events st @ [WoltCall b True] \<rparr>)"
    have here: "set (skusOf b) \<subseteq> pushedSkus (events ?st2)"
      by (simp add: updateSyncedState_pushed pushedSkus_append)
    have rest: "(\<Union>b \<in> set bs. set (skusOf b))
        \<subseteq> pushedSkus (events (snd (sendBatches ok dry lmt ns bs ?st2)))"
      using Cons.IH [of ?st2] Cons.prems True by simp
    from here rest sendBatches_pushed_mono [of ?st2 ok dry lmt ns bs] True
    show ?thesis by auto
  next
    case False
    with Cons.prems show ?thesis by simp
  qed
qed

lemma parseInt_integral: "parseInt s = Fin r \<Longrightarrow> r = of_int \<lfloor>r\<rfloor>"
  by (auto simp: parseInt_def Let_def split: prod.splits if_splits)

lemma positiveOr_positive: "0 < d \<Longrightarrow> 0 < positiveOr (parseInt s) d"
proof (cases "parseInt s")
  case (Fin r)
  assume d: "0 < d"
  show ?thesis
  proof (cases "0 < r")
    case True
    with parseInt_integral [OF Fin] have "0 < \<lfloor>r\<rfloor>"
      by (metis of_int_0_less_iff)
    with Fin True show ?thesis by simp
  next
    case False
    with Fin d show ?thesis by simp
  qed
qed simp_all

lemma readPositiveInt_positive: "readPositiveInt e k = Some v \<Longrightarrow> 0 < v"
proof -
  assume a: "readPositiveInt e k = Some v"
  then obtain raw r where "parseInt raw = Fin r" "0 < r" "v = \<lfloor>r\<rfloor>"
    by (auto simp: readPositiveInt_def split: option.splits if_splits jsnum.splits)
  with parseInt_integral [of raw r] show ?thesis
    by (metis of_int_0_less_iff)
qed

lemma orElse_positive: "(\<And>v. a = Some v \<Longrightarrow> 0 < v) \<Longrightarrow> 0 < (d::int) \<Longrightarrow> 0 < orElse a d"
  by (cases a) (simp_all add: orElse_def)

text \<open>The batch size is a positive integer, whatever the environment holds.\<close>

lemma resolveBatchConfig_positive:
  "0 < fst (resolveBatchConfig (newSyncEngine e) e' sid first)"
  by (auto simp: resolveBatchConfig_def newSyncEngine_def Let_def
      intro!: orElse_positive positiveOr_positive dest: readPositiveInt_positive)

lemma set_chunks: "0 < n \<Longrightarrow> (\<Union>b \<in> set (chunks n xs). set b) = set xs"
  using concat_chunks [of n xs] by (metis set_concat less_numeral_extra(3))

text \<open>In a non-bootstrap run every SKU of the new state is in the previous state or has an
  item update.\<close>

lemma diffSku_new_item:
  "map_of prev (fst e) = None \<Longrightarrow>
   fst e \<in> item_sku ` set (itemUpdates (diffSku f False now prev emptyChanges e))"
  by (simp add: diffSku_def emptyChanges_def Let_def)

lemma foldl_diffSku_keys:
  "fst ` set (newState (foldl (diffSku f b now prev) acc wd))
     = fst ` set (newState acc) \<union> fst ` set wd"
  by (induction wd arbitrary: acc)
     (auto simp: diffSku_def Let_def dom_update split: option.splits if_splits)

lemma foldl_missingSku_keys:
  "fst ` set (newState (foldl (missingSku b now wd) acc prev))
     \<subseteq> fst ` set (newState acc) \<union> fst ` set prev"
proof (induction prev arbitrary: acc)
  case Nil
  then show ?case by simp
next
  case (Cons e prev)
  have "fst ` set (newState (missingSku b now wd acc e)) \<subseteq> fst ` set (newState acc) \<union> {fst e}"
    by (auto simp: missingSku_def Let_def dom_update split: if_splits)
  with Cons.IH [of "missingSku b now wd acc e"] show ?case by auto
qed

lemma detectChanges_keys:
  "fst ` set (newState (detectChanges f False now prev wd))
     \<subseteq> fst ` set prev \<union> item_sku ` set (itemUpdates (detectChanges f False now prev wd))"
proof
  fix k
  assume "k \<in> fst ` set (newState (detectChanges f False now prev wd))"
  moreover have "fst ` set (newState (detectChanges f False now prev wd))
      \<subseteq> fst ` set (newState (foldl (diffSku f False now prev) emptyChanges wd))
          \<union> fst ` set prev"
    unfolding detectChanges_def emptyChanges_def [symmetric]
    by (rule foldl_missingSku_keys)
  moreover have "fst ` set (newState (foldl (diffSku f False now prev) emptyChanges wd))
      = fst ` set wd"
    by (simp add: foldl_diffSku_keys) (simp add: emptyChanges_def)
  ultimately have "k \<in> fst ` set wd \<union> fst ` set prev"
    by blast
  moreover
  {
    assume wd: "k \<in> fst ` set wd" and new: "k \<notin> fst ` set prev"
    then obtain e where e: "e \<in> set wd" "fst e = k" by auto
    from new have "map_of prev k = None"
      by (simp add: map_of_eq_None_iff)
    with e have "k \<in> item_sku ` set (itemUpdates (diffSku f False now prev emptyChanges e))"
      using diffSku_new_item [of prev e f now] by simp
    with e(1) have "k \<in> item_sku ` set (itemUpdates (detectChanges f False now prev wd))"
      by (auto simp: detectChanges_def foldl_missingSku_items foldl_diffSku_items
          emptyChanges_def [symmetric])
  }
  ultimately
  show "k \<in> fst ` set prev \<union> item_sku ` set (itemUpdates (detectChanges f False now prev wd))"
    by blast
qed

lemma phase1_inv: "pushInv K st \<Longrightarrow> pushInv K (snd (phase1 inp opts n ns xs st))"
  by (simp add: phase1_def sendBatches_inv)

lemma phase2_inv: "pushInv K st \<Longrightarrow> pushInv K (snd (phase2 inp opts n ns xs st))"
  by (simp add: phase2_def sendBatches_inv)

lemma phase2_pushed_mono:
  "pushedSkus (events st) \<subseteq> pushedSkus (events (snd (phase2 inp opts n ns xs st)))"
  by (simp add: phase2_def sendBatches_pushed_mono)

lemma applyLimit_unset: "\<not> limitSet l \<Longrightarrow> applyLimit l xs = xs"
  by (auto simp: applyLimit_def limitSet_def split: option.splits)

lemma skusOf_Items: "(\<Union>b \<in> set (map Items bs). set (skusOf b)) = item_sku ` (\<Union>b \<in> set bs. set b)"
  by (induction bs) auto

lemma phase1_all_pushed:
  assumes "fst (phase1 inp opts n ns xs st) = None" "\<not> dryRun opts" "0 < n"
  shows "item_sku ` set xs \<subseteq> pushedSkus (events (snd (phase1 inp opts n ns xs st)))"
proof (cases "xs = []")
  case True
  then show ?thesis by simp
next
  case False
  with assms(1,2) have
    "(\<Union>b \<in> set (map Items (chunks n xs)). set (skusOf b))
       \<subseteq> pushedSkus (events (snd (phase1 inp opts n ns xs st)))"
    using sendBatches_all_pushed
      [of "woltOk inp" "dryRun opts" "limit opts" ns "map Items (chunks n xs)" st]
    by (simp add: phase1_def)
  then show ?thesis
    by (simp only: skusOf_Items set_chunks [OF assms(3)])
qed

lemma executeSync_completed:
  "fst (executeSync inp opts u c) = Completed \<Longrightarrow>
   fst (phase1 inp opts
       (nat (fst (resolveBatchConfig (newSyncEngine (environment inp)) (environment inp)
                   (storeId inp) u)))
       (newState c) (applyLimit (limit opts) (itemUpdates c))
       \<lparr> callCount = 0, prevState = loadedState inp, events = [] \<rparr>) = None"
  by (auto simp: executeSync_def Let_def split: prod.splits option.splits)

lemma executeSync_confirmed:
  assumes c: "c = detectChanges f False now (loadedState inp) wd"
  shows "savesConfirmed (fst ` set (loadedState inp)) (snd (executeSync inp opts u c))"
proof -
  let ?K = "fst ` set (loadedState inp)"
  let ?n = "nat (fst (resolveBatchConfig (newSyncEngine (environment inp))
                     (environment inp) (storeId inp) u))"
  let ?st0 = "\<lparr> callCount = 0, prevState = loadedState inp, events = [] \<rparr>"
  let ?p1 = "phase1 inp opts ?n (newState c) (applyLimit (limit opts) (itemUpdates c)) ?st0"
  let ?p2 = "phase2 inp opts ?n (newState c) (applyLimit (limit opts) (inventoryUpdates c))
               (snd ?p1)"
  have n: "0 < ?n"
    using resolveBatchConfig_positive [of "environment inp" "environment inp" "storeId inp" u]
    by simp
  have "pushInv ?K ?st0"
    by (simp add: pushInv_def)
  then have i1: "pushInv ?K (snd ?p1)"
    by (rule phase1_inv)
  then have i2: "pushInv ?K (snd ?p2)"
    by (rule phase2_inv)
  from executeSync_events [of inp opts u c]
  consider (one) "snd (executeSync inp opts u c) = events (snd ?p1)"
    | (two) "snd (executeSync inp opts u c) = events (snd ?p2)"
    | (final) "snd (executeSync inp opts u c) = events (snd ?p2) @ [SaveState (newState c)]"
        "\<not> dryRun opts" "\<not> limitSet (limit opts)" "fst (executeSync inp opts u c) = Completed"
    by auto
  then show ?thesis
  proof cases
    case one
    with i1 show ?thesis by (simp add: pushInv_def)
  next
    case two
    with i2 show ?thesis by (simp add: pushInv_def)
  next
    case final
    have p1: "fst ?p1 = None"
      using executeSync_completed [OF final(4)] .
    have eq: "applyLimit (limit opts) (itemUpdates c) = itemUpdates c"
      by (rule applyLimit_unset [OF final(3)])
    have "item_sku ` set (applyLimit (limit opts) (itemUpdates c))
            \<subseteq> pushedSkus (events (snd ?p1))"
      using phase1_all_pushed [OF p1 final(2) n] .
    then have "item_sku ` set (itemUpdates c) \<subseteq> pushedSkus (events (snd ?p1))"
      by (simp only: eq)
    also have "\<dots> \<subseteq> pushedSkus (events (snd ?p2))"
      by (rule phase2_pushed_mono)
    finally have pushed: "item_sku ` set (itemUpdates c) \<subseteq> pushedSkus (events (snd ?p2))" .
    have keys: "fst ` set (newState c) \<subseteq> ?K \<union> item_sku ` set (itemUpdates c)"
      unfolding c by (rule detectChanges_keys)
    from keys pushed have "fst ` set (newState c) \<subseteq> ?K \<union> pushedSkus (events (snd ?p2))"
      by blast
    with i2 final(1) show ?thesis
      by (simp add: pushInv_def savesConfirmed_append)
  qed
qed

section \<open>Properties of the bootstrap writers\<close>

lemma foldl_missingSku_keys_eq:
  "fst ` set (newState (foldl (missingSku b now wd) acc prev))
     = fst ` set (newState acc) \<union> {k \<in> fst ` set prev. map_of wd k = None}"
proof (induction prev arbitrary: acc)
  case Nil
  then show ?case by simp
next
  case (Cons e prev)
  have "fst ` set (newState (missingSku b now wd acc e))
      = fst ` set (newState acc) \<union> (if map_of wd (fst e) = None then {fst e} else {})"
    by (auto simp: missingSku_def Let_def dom_update)
  with Cons.IH [of "missingSku b now wd acc e"] show ?case by auto
qed

lemma detectChanges_newState_keys:
  "fst ` set (newState (detectChanges f b now prev wd)) = fst ` set wd \<union> fst ` set prev"
proof -
  have "fst ` set (newState (detectChanges f b now prev wd))
      = fst ` set wd \<union> {k \<in> fst ` set prev. map_of wd k = None}"
    unfolding detectChanges_def emptyChanges_def [symmetric]
    by (simp add: foldl_missingSku_keys_eq foldl_diffSku_keys) (simp add: emptyChanges_def)
  also have "\<dots> = fst ` set wd \<union> fst ` set prev"
    by (auto simp: map_of_eq_None_iff)
  finally show ?thesis .
qed

lemma addProduct_keys:
  "fst ` set (addProduct stockMap skuMap woltData product)
     = fst ` set woltData \<union>
       (case skuMap (det_id product) of
          None \<Rightarrow> {} | Some sku \<Rightarrow> if sku = [] then {} else {sku})"
  by (auto simp: addProduct_def Let_def dom_update split: option.splits)

lemma foldl_addProduct_keys:
  "fst ` set (foldl (addProduct stockMap skuMap) woltData details)
     = fst ` set woltData \<union>
       (\<Union>product \<in> set details.
          case skuMap (det_id product) of
            None \<Rightarrow> {} | Some sku \<Rightarrow> if sku = [] then {} else {sku})"
  by (induction details arbitrary: woltData) (auto simp: addProduct_keys)

lemma bootstrapEntries_keys:
  "fst ` set (bootstrapEntries stockMap skuMap now state details)
     = fst ` set state \<union>
       (\<Union>product \<in> set details.
          case skuMap (det_id product) of
            None \<Rightarrow> {} | Some sku \<Rightarrow> if sku = [] then {} else {sku})"
  by (induction stockMap skuMap now state details rule: bootstrapEntries.induct)
     (auto simp: Let_def dom_update split: option.splits)

lemma bootstrapEntries_view:
  "fst ` set (bootstrapEntries (map_get (map (\<lambda>i. (inv_id i, rest i)) inventoryItems))
                (mapToWoltSku details) now [] details)
     = fst ` set (buildWoltData inventoryItems details)"
  by (simp add: bootstrapEntries_keys buildWoltData_def foldl_addProduct_keys)

lemma update_existing_keys:
  "map_of state sku = Some entry \<Longrightarrow> fst ` set (AList.update sku v state) = fst ` set state"
  by (auto simp: dom_update dest: map_of_SomeD intro: rev_image_eqI)

lemma mergeWoltState_keys: "fst ` set (mergeWoltState state woltItems) = fst ` set state"
  by (induction state woltItems rule: mergeWoltState.induct)
     (simp_all add: update_existing_keys split: option.splits)

lemma markSyncedSkus_keys: "fst ` set (markSyncedSkus state syncedSkus) = fst ` set state"
  by (induction state syncedSkus rule: markSyncedSkus.induct)
     (simp_all add: update_existing_keys split: option.splits)

section \<open>Properties of the worker's push loops\<close>

lemma pushLoop_events:
  "\<exists>evs. snd (snd (pushLoop fuel ok stp mk b xs i st)) = snd st @ evs \<and> stateWrites evs = []"
proof (induction fuel arbitrary: i st)
  case 0
  then show ?case by simp
next
  case (Suc fuel)
  let ?st' = "(fst st + 1, snd st @ [WoltCall (mk (js_slice xs i (num_add i b))) True])"
  from Suc [of "num_add i b" ?st'] obtain evs where
    "snd (snd (pushLoop fuel ok stp mk b xs (num_add i b) ?st')) = snd ?st' @ evs"
    "stateWrites evs = []"
    by blast
  then have "snd (snd (pushLoop fuel ok stp mk b xs (num_add i b) ?st'))
      = snd st @ (WoltCall (mk (js_slice xs i (num_add i b))) True # evs) \<and>
    stateWrites (WoltCall (mk (js_slice xs i (num_add i b))) True # evs) = []"
    by simp
  then have rec: "\<exists>evs. snd (snd (pushLoop fuel ok stp mk b xs (num_add i b) ?st'))
      = snd st @ evs \<and> stateWrites evs = []"
    by blast
  have thrown: "\<exists>evs. snd st @ [WoltCall (mk (js_slice xs i (num_add i b))) False]
      = snd st @ evs \<and> stateWrites evs = []"
    by simp
  show ?case
    using rec thrown by (simp add: Let_def)
qed

lemma savesConfirmed_calls: "stateWrites evs = [] \<Longrightarrow> savesConfirmed K evs"
  by (induction K evs rule: savesConfirmed.induct) simp_all

lemma pushLoop_confirmed:
  "savesConfirmed K (snd st) \<Longrightarrow> savesConfirmed K (snd (snd (pushLoop fuel ok stp mk b xs i st)))"
proof -
  assume a: "savesConfirmed K (snd st)"
  obtain evs where e: "snd (snd (pushLoop fuel ok stp mk b xs i st)) = snd st @ evs"
    "stateWrites evs = []"
    using pushLoop_events by blast
  show ?thesis
    unfolding e(1) using a savesConfirmed_calls [OF e(2)] by (simp add: savesConfirmed_append)
qed

lemma pushLoop_pushed_mono:
  "pushedSkus (snd st) \<subseteq> pushedSkus (snd (snd (pushLoop fuel ok stp mk b xs i st)))"
proof -
  obtain evs where e: "snd (snd (pushLoop fuel ok stp mk b xs i st)) = snd st @ evs"
    using pushLoop_events by blast
  show ?thesis unfolding e by (simp add: pushedSkus_append)
qed

lemma pushLoop_not_broken:
  "\<forall>k. \<not> stp k \<Longrightarrow> fst (pushLoop fuel ok stp mk b xs i st) \<noteq> LoopBroken"
  by (induction fuel arbitrary: i st) (simp_all add: Let_def)

lemma indexOk_step:
  "indexOk b i \<Longrightarrow> num_lt i (Fin n) \<Longrightarrow> indexOk b (num_add i b)"
  by (cases i; cases b) (simp_all add: indexOk_def)

lemma sliceIndex_end:
  "i \<noteq> NaN \<Longrightarrow> \<not> num_lt i (Fin (of_nat len)) \<Longrightarrow> sliceIndex len i = len"
proof (cases i)
  case (Fin r)
  assume "\<not> num_lt i (Fin (of_nat len))"
  with Fin have r: "of_nat len \<le> r" by simp
  have "(0 :: rat) \<le> of_nat len" by simp
  with r have pos: "0 \<le> r" by linarith
  from r have "int len \<le> \<lfloor>r\<rfloor>" by (simp add: le_floor_iff)
  then have "len \<le> nat \<lfloor>r\<rfloor>" and "\<not> \<lfloor>r\<rfloor> < 0" by linarith+
  with pos show ?thesis using Fin by (simp add: Let_def)
qed simp_all

lemma drop_split:
  "k \<le> f \<Longrightarrow> set (drop k xs) = set (take (f - k) (drop k xs)) \<union> set (drop f xs)"
proof -
  assume "k \<le> f"
  then have "drop f xs = drop (f - k) (drop k xs)" by simp
  then have "take (f - k) (drop k xs) @ drop f xs = drop k xs"
    by (simp only: append_take_drop_id)
  then show ?thesis by (metis set_append)
qed

lemma js_slice_cover:
  "set (drop (sliceIndex (length xs) i) xs)
     \<subseteq> set (js_slice xs i j) \<union> set (drop (sliceIndex (length xs) j) xs)"
proof (cases "sliceIndex (length xs) i \<le> sliceIndex (length xs) j")
  case True
  from drop_split [OF True, of xs] show ?thesis by (simp add: js_slice_def Let_def)
next
  case False
  then have "set (drop (sliceIndex (length xs) i) xs) \<subseteq> set (drop (sliceIndex (length xs) j) xs)"
    by (simp add: set_drop_subset_set_drop)
  then show ?thesis by blast
qed

lemma pushLoop_all_pushed:
  assumes keys: "\<And>batch. set (skusOf (mk batch)) = keyOf ` set batch"
    and nostop: "\<forall>k. \<not> stp k"
  shows "indexOk b i \<Longrightarrow> fst (pushLoop fuel ok stp mk b xs i st) = LoopDone \<Longrightarrow>
         keyOf ` set (drop (sliceIndex (length xs) i) xs)
           \<subseteq> pushedSkus (snd (snd (pushLoop fuel ok stp mk b xs i st)))"
proof (induction fuel arbitrary: i st)
  case 0
  then show ?case by simp
next
  case (Suc fuel)
  show ?case
  proof (cases "num_lt i (Fin (of_nat (length xs)))")
    case False
    with Suc.prems(1) have "sliceIndex (length xs) i = length xs"
      using sliceIndex_end [of i "length xs"] by (simp add: indexOk_def)
    then have "drop (sliceIndex (length xs) i) xs = []" by simp
    then show ?thesis by (simp only: list.set image_empty empty_subsetI)
  next
    case True
    let ?batch = "js_slice xs i (num_add i b)"
    let ?st' = "(fst st + 1, snd st @ [WoltCall (mk ?batch) True])"
    have okk: "ok (fst st)"
    proof (rule ccontr)
      assume "\<not> ok (fst st)"
      with True nostop have "fst (pushLoop (Suc fuel) ok stp mk b xs i st) = LoopThrew"
        by (simp add: Let_def)
      with Suc.prems(2) show False by simp
    qed
    with True nostop have unfold: "pushLoop (Suc fuel) ok stp mk b xs i st
        = pushLoop fuel ok stp mk b xs (num_add i b) ?st'"
      by (simp add: Let_def)
    with Suc.prems(2) have ended: "fst (pushLoop fuel ok stp mk b xs (num_add i b) ?st') = LoopDone"
      by simp
    have idx: "indexOk b (num_add i b)"
      using indexOk_step [OF Suc.prems(1) True] .
    from Suc.IH [OF idx ended]
    have rest: "keyOf ` set (drop (sliceIndex (length xs) (num_add i b)) xs)
        \<subseteq> pushedSkus (snd (snd (pushLoop fuel ok stp mk b xs (num_add i b) ?st')))" .
    have "keyOf ` set ?batch \<subseteq> pushedSkus (snd ?st')"
      by (simp add: pushedSkus_append keys)
    also have "\<dots> \<subseteq> pushedSkus (snd (snd (pushLoop fuel ok stp mk b xs (num_add i b) ?st')))"
      by (rule pushLoop_pushed_mono)
    finally have this_batch: "keyOf ` set ?batch
        \<subseteq> pushedSkus (snd (snd (pushLoop fuel ok stp mk b xs (num_add i b) ?st')))" .
    have "keyOf ` set (drop (sliceIndex (length xs) i) xs)
        \<subseteq> keyOf ` (set ?batch \<union> set (drop (sliceIndex (length xs) (num_add i b)) xs))"
      using js_slice_cover [of xs i "num_add i b"] by (rule image_mono)
    also have "\<dots> = keyOf ` set ?batch
        \<union> keyOf ` set (drop (sliceIndex (length xs) (num_add i b)) xs)"
      by (rule image_Un)
    also have "\<dots> \<subseteq> pushedSkus (snd (snd (pushLoop fuel ok stp mk b xs (num_add i b) ?st')))"
      using rest this_batch by (rule Un_least [rotated])
    finally show ?thesis
      by (simp only: unfold)
  qed
qed

lemma pushLoop_from_start:
  assumes "\<And>batch. set (skusOf (mk batch)) = keyOf ` set batch" "\<forall>k. \<not> stp k" "b \<noteq> NaN"
    and "fst (pushLoop fuel ok stp mk b xs (Fin 0) st) = LoopDone"
  shows "keyOf ` set xs \<subseteq> pushedSkus (snd (snd (pushLoop fuel ok stp mk b xs (Fin 0) st)))"
proof -
  have "indexOk b (Fin 0)" using assms(3) by (simp add: indexOk_def)
  from pushLoop_all_pushed [of mk keyOf stp b "Fin 0" fuel ok xs st, OF assms(1) assms(2) this assms(4)]
  show ?thesis by (simp add: Let_def)
qed

text \<open>With a batch size of at least 1 a loop over \<open>n\<close> elements ends within \<open>n + 1\<close> tests
  of its condition.\<close>

lemma pushLoop_ends:
  fixes q r :: rat
  assumes "1 \<le> r"
  shows "of_nat (length xs) - q \<le> of_nat m \<Longrightarrow> m < fuel \<Longrightarrow>
         fst (pushLoop fuel ok stp mk (Fin r) xs (Fin q) st) \<noteq> LoopRunning"
proof (induction fuel arbitrary: q m st)
  case 0
  then show ?case by simp
next
  case (Suc fuel)
  show ?case
  proof (cases "q < of_nat (length xs)")
    case False
    then show ?thesis by simp
  next
    case True
    with Suc.prems(1) have "0 < m"
      by (cases m) auto
    then obtain m' where m: "m = Suc m'" by (cases m) auto
    have "of_nat (length xs) - (q + r) \<le> of_nat m'"
      using Suc.prems(1) assms m by simp
    moreover have "m' < fuel" using Suc.prems(2) m by simp
    ultimately have "fst (pushLoop fuel ok stp mk (Fin r) xs (Fin (q + r))
        (fst st + 1, snd st @ [WoltCall (mk (js_slice xs (Fin q) (Fin (q + r)))) True]))
      \<noteq> LoopRunning"
      by (rule Suc.IH)
    with True show ?thesis by (simp add: Let_def)
  qed
qed

section \<open>Properties of the worker iteration\<close>

lemma set_js_slice: "set (js_slice xs a b) \<subseteq> set xs"
  by (auto simp: js_slice_def Let_def dest: in_set_takeD in_set_dropD)

lemma length_js_slice: "length (js_slice xs a b) \<le> length xs"
  by (simp add: js_slice_def Let_def)

lemma unsyncedItems_ids:
  "e \<in> set (unsyncedItems skip state skuMap details) \<Longrightarrow> fst e \<in> det_id ` set details"
  by (induction skip state skuMap details rule: unsyncedItems.induct)
     (auto split: option.splits if_splits)

lemma length_unsyncedItems: "length (unsyncedItems skip state skuMap details) \<le> length details"
  by (induction skip state skuMap details rule: unsyncedItems.induct)
     (auto split: option.splits if_splits)

lemma map_get_in: "k \<in> fst ` set ps \<Longrightarrow> map_get ps k \<noteq> None"
  by (simp add: map_get_def map_of_eq_None_iff)

lemma backgroundUpdates_skus:
  "\<forall>e \<in> set batch. detailMap (fst e) \<noteq> None \<Longrightarrow>
   item_sku ` set (fst (backgroundUpdates stockMap detailMap batch)) = snd ` set batch"
  by (induction stockMap detailMap batch rule: backgroundUpdates.induct)
     (auto simp: Let_def split_beta split: option.splits)

lemma length_backgroundUpdates:
  "length (fst (backgroundUpdates stockMap detailMap batch)) \<le> length batch"
  "length (snd (backgroundUpdates stockMap detailMap batch)) \<le> length batch"
  by (induction stockMap detailMap batch rule: backgroundUpdates.induct)
     (auto simp: Let_def split_beta split: option.splits)

lemma markSynced_keys:
  "fst ` set (markSynced now state batch) = fst ` set state \<union> snd ` set batch"
  by (induction now state batch rule: markSynced.induct)
     (auto simp: Let_def dom_update)

text \<open>The iteration in terms of the results of its two push loops.\<close>

lemma syncNextBatch_run_phases:
  assumes "w_inventoryResult inp = Inr inventoryItems" "w_detailsResult inp = Inr details"
    and "unsyncedItems (w_skipIfInState inp) (w_loadedState inp) (mapToWoltSku details) details
           \<noteq> []"
    and "batchToSync = js_slice (unsyncedItems (w_skipIfInState inp) (w_loadedState inp)
                                   (mapToWoltSku details) details) (Fin 0) (w_dailyLimit inp)"
    and "upd = backgroundUpdates (map_get (map (\<lambda>i. (inv_id i, rest i)) inventoryItems))
                 (map_get (map (\<lambda>d. (det_id d, d)) details)) batchToSync"
    and "r1 = (if fst upd \<noteq> []
               then pushLoop fuel (w_woltOk inp) (w_shouldStop inp) Items (w_batchSize inp)
                      (fst upd) (Fin 0) (0, [])
               else (LoopDone, (0, [])))"
    and "r2 = (if snd upd \<noteq> [] \<and> \<not> w_shouldStop inp (fst (snd r1))
               then pushLoop fuel (w_woltOk inp) (w_shouldStop inp) Inventory (w_batchSize inp)
                      (snd upd) (Fin 0) (snd r1)
               else (LoopDone, snd r1))"
  shows "syncNextBatch_run fuel inp =
     (case fst r1 of
        LoopThrew \<Rightarrow> (Some (Thrown ''Wolt API error''), snd (snd r1))
      | LoopRunning \<Rightarrow> (None, snd (snd r1))
      | _ \<Rightarrow>
          (case fst r2 of
             LoopThrew \<Rightarrow> (Some (Thrown ''Wolt API error''), snd (snd r2))
           | LoopRunning \<Rightarrow> (None, snd (snd r2))
           | _ \<Rightarrow> (Some Completed,
                    snd (snd r2) @
                    [SaveState (markSynced (w_clock inp) (w_loadedState inp) batchToSync)])))"
  using assms(1,2,3)
  unfolding assms(4,5,6,7) syncNextBatch_run_def
  by (simp add: Let_def split_beta split: loopEnd.splits)

lemma syncNextBatch_run_confirmed:
  assumes number: "w_batchSize inp \<noteq> NaN" and nostop: "\<forall>k. \<not> w_shouldStop inp k"
  shows "savesConfirmed (fst ` set (w_loadedState inp)) (snd (syncNextBatch_run fuel inp))"
proof (cases "w_inventoryResult inp")
  case (Inl err)
  then show ?thesis by (simp add: syncNextBatch_run_def)
next
  case inventory: (Inr inventoryItems)
  show ?thesis
  proof (cases "w_detailsResult inp")
    case (Inl err)
    with inventory show ?thesis by (simp add: syncNextBatch_run_def)
  next
    case details: (Inr details)
    let ?K = "fst ` set (w_loadedState inp)"
    define unsynced where
      "unsynced = unsyncedItems (w_skipIfInState inp) (w_loadedState inp) (mapToWoltSku details)
                    details"
    show ?thesis
    proof (cases "unsynced = []")
      case True
      with inventory details show ?thesis
        by (simp add: syncNextBatch_run_def unsynced_def Let_def)
    next
      case False
      define batchToSync where "batchToSync = js_slice unsynced (Fin 0) (w_dailyLimit inp)"
      define upd where
        "upd = backgroundUpdates (map_get (map (\<lambda>i. (inv_id i, rest i)) inventoryItems))
                 (map_get (map (\<lambda>d. (det_id d, d)) details)) batchToSync"
      define r1 where
        "r1 = (if fst upd \<noteq> []
               then pushLoop fuel (w_woltOk inp) (w_shouldStop inp) Items (w_batchSize inp)
                      (fst upd) (Fin 0) (0, [])
               else (LoopDone, (0, [])))"
      define r2 where
        "r2 = (if snd upd \<noteq> [] \<and> \<not> w_shouldStop inp (fst (snd r1))
               then pushLoop fuel (w_woltOk inp) (w_shouldStop inp) Inventory (w_batchSize inp)
                      (snd upd) (Fin 0) (snd r1)
               else (LoopDone, snd r1))"
      note run = syncNextBatch_run_phases
        [OF inventory details False [unfolded unsynced_def]
            batchToSync_def [unfolded unsynced_def] upd_def r1_def r2_def]
      have c1: "savesConfirmed ?K (snd (snd r1))"
        by (simp add: r1_def pushLoop_confirmed)
      have c2: "savesConfirmed ?K (snd (snd r2))"
        using c1 by (simp add: r2_def pushLoop_confirmed)
      have mono: "pushedSkus (snd (snd r1)) \<subseteq> pushedSkus (snd (snd r2))"
        by (simp add: r2_def pushLoop_pushed_mono)
      have nb1: "fst r1 \<noteq> LoopBroken"
        by (simp add: r1_def pushLoop_not_broken [OF nostop])
      have nb2: "fst r2 \<noteq> LoopBroken"
        by (simp add: r2_def pushLoop_not_broken [OF nostop])
      have ids: "\<forall>e \<in> set batchToSync. map_get (map (\<lambda>d. (det_id d, d)) details) (fst e) \<noteq> None"
      proof
        fix e assume "e \<in> set batchToSync"
        then have "e \<in> set unsynced"
          using set_js_slice [of unsynced "Fin 0" "w_dailyLimit inp"]
          by (auto simp: batchToSync_def)
        then have "fst e \<in> det_id ` set details"
          unfolding unsynced_def by (rule unsyncedItems_ids)
        then have "fst e \<in> fst ` set (map (\<lambda>d. (det_id d, d)) details)"
          by (simp add: image_image)
        then show "map_get (map (\<lambda>d. (det_id d, d)) details) (fst e) \<noteq> None"
          by (rule map_get_in)
      qed
      have skus: "item_sku ` set (fst upd) = snd ` set batchToSync"
        unfolding upd_def using ids by (rule backgroundUpdates_skus)
      have pushed: "fst r1 = LoopDone \<Longrightarrow> snd ` set batchToSync \<subseteq> pushedSkus (snd (snd r1))"
      proof (cases "fst upd = []")
        case True
        with skus show ?thesis by simp
      next
        case nonempty: False
        assume "fst r1 = LoopDone"
        with nonempty have "fst (pushLoop fuel (w_woltOk inp) (w_shouldStop inp) Items
            (w_batchSize inp) (fst upd) (Fin 0) (0, [])) = LoopDone"
          by (simp add: r1_def)
        from pushLoop_from_start [of Items item_sku, OF _ nostop number this]
        have "item_sku ` set (fst upd) \<subseteq> pushedSkus (snd (snd r1))"
          using nonempty by (simp add: r1_def)
        with skus show ?thesis by simp
      qed
      show ?thesis
      proof (cases "fst r1")
        case LoopThrew
        with c1 show ?thesis by (simp add: run)
      next
        case LoopRunning
        with c1 show ?thesis by (simp add: run)
      next
        case LoopBroken
        with nb1 show ?thesis by simp
      next
        case done1: LoopDone
        show ?thesis
        proof (cases "fst r2")
          case LoopThrew
          with c2 done1 show ?thesis by (simp add: run)
        next
          case LoopRunning
          with c2 done1 show ?thesis by (simp add: run)
        next
          case LoopBroken
          with nb2 show ?thesis by simp
        next
          case LoopDone
          have "fst ` set (markSynced (w_clock inp) (w_loadedState inp) batchToSync)
              \<subseteq> ?K \<union> pushedSkus (snd (snd r2))"
            using pushed [OF done1] mono by (auto simp: markSynced_keys)
          with c2 done1 LoopDone show ?thesis
            by (simp add: run savesConfirmed_append)
        qed
      qed
    qed
  qed
qed

lemma syncNextBatch_run_returns:
  assumes "w_batchSize inp = Fin r" "1 \<le> r"
    and details: "w_detailsResult inp = Inr details" and fuel: "length details < fuel"
  shows "fst (syncNextBatch_run fuel inp) \<noteq> None"
proof (cases "w_inventoryResult inp")
  case (Inl err)
  then show ?thesis by (simp add: syncNextBatch_run_def)
next
  case inventory: (Inr inventoryItems)
  define unsynced where
    "unsynced = unsyncedItems (w_skipIfInState inp) (w_loadedState inp) (mapToWoltSku details)
                  details"
  show ?thesis
  proof (cases "unsynced = []")
    case True
    with inventory details show ?thesis
      by (simp add: syncNextBatch_run_def unsynced_def Let_def)
  next
    case False
    define batchToSync where "batchToSync = js_slice unsynced (Fin 0) (w_dailyLimit inp)"
    define upd where
      "upd = backgroundUpdates (map_get (map (\<lambda>i. (inv_id i, rest i)) inventoryItems))
               (map_get (map (\<lambda>d. (det_id d, d)) details)) batchToSync"
    define r1 where
      "r1 = (if fst upd \<noteq> []
             then pushLoop fuel (w_woltOk inp) (w_shouldStop inp) Items (w_batchSize inp)
                    (fst upd) (Fin 0) (0, [])
             else (LoopDone, (0, [])))"
    define r2 where
      "r2 = (if snd upd \<noteq> [] \<and> \<not> w_shouldStop inp (fst (snd r1))
             then pushLoop fuel (w_woltOk inp) (w_shouldStop inp) Inventory (w_batchSize inp)
                    (snd upd) (Fin 0) (snd r1)
             else (LoopDone, snd r1))"
    note run = syncNextBatch_run_phases
      [OF inventory details False [unfolded unsynced_def]
          batchToSync_def [unfolded unsynced_def] upd_def r1_def r2_def]
    have "length batchToSync \<le> length details"
      using length_js_slice [of unsynced "Fin 0" "w_dailyLimit inp"]
        length_unsyncedItems [of "w_skipIfInState inp" "w_loadedState inp"
          "mapToWoltSku details" details]
      by (simp add: batchToSync_def unsynced_def)
    with fuel have len: "length (fst upd) < fuel" "length (snd upd) < fuel"
      using length_backgroundUpdates
        [of "map_get (map (\<lambda>i. (inv_id i, rest i)) inventoryItems)"
            "map_get (map (\<lambda>d. (det_id d, d)) details)" batchToSync]
      by (simp_all add: upd_def)
    have e1: "fst r1 \<noteq> LoopRunning"
      using pushLoop_ends [OF assms(2), of "fst upd" 0 "length (fst upd)" fuel] len(1)
      by (simp add: r1_def assms(1))
    have e2: "fst r2 \<noteq> LoopRunning"
      using pushLoop_ends [OF assms(2), of "snd upd" 0 "length (snd upd)" fuel] len(2)
      by (simp add: r2_def assms(1))
    from e1 e2 show ?thesis
      by (simp add: run split: loopEnd.splits)
  qed
qed

section \<open>Properties of the bootstrap mode of the SyncEngine\<close>

lemma runWithOptions_bootstrap_calls:
  "bootstrapState opts \<Longrightarrow> marketplaceCalls (snd (runWithOptions inp opts)) = []"
  by (auto simp: runWithOptions_def Let_def split: sum.splits)

lemma runWithOptions_bootstrap_dry:
  "bootstrapState opts \<Longrightarrow> dryRun opts \<Longrightarrow> snd (runWithOptions inp opts) = []"
  by (auto simp: runWithOptions_def Let_def split: sum.splits)

lemma runWithOptions_bootstrap_writes:
  assumes "bootstrapState opts" "\<not> dryRun opts" "storeEnabled inp"
    and "inventoryResult inp = Inr inventoryItems" "inventoryItems \<noteq> []"
    and "detailsResult inp = Inr details" "length inventoryItems \<le> length details"
  shows "map (\<lambda>s. fst ` set s) (stateWrites (snd (runWithOptions inp opts)))
           = [fst ` set (buildWoltData inventoryItems details) \<union> fst ` set (loadedState inp)]"
  using assms
  by (simp add: runWithOptions_def Let_def detectChanges_newState_keys)

lemma bootstrapState_orchestrator_calls:
  "marketplaceCalls (snd (bootstrapState_orchestrator inventoryFetch detailsFetch now)) = []"
  by (simp add: bootstrapState_orchestrator_def split: sum.splits)

lemma bootstrapState_orchestrator_writes:
  "map (\<lambda>s. fst ` set s)
     (stateWrites (snd (bootstrapState_orchestrator (Inr inventoryItems) (Inr details) now)))
   = [fst ` set (buildWoltData inventoryItems details)]"
  by (simp add: bootstrapState_orchestrator_def bootstrapEntries_view)

section \<open>Sample iterations of the worker\<close>

lemma sample_worker_batchSize: "w_batchSize sample_worker = Fin 1000"
  by (simp add: sample_worker_def initConfig_def getCurrentBatchSize_def env_or_def
      parseInt_def is_space_def is_digit_def digits_val_def digit_val_def Let_def)

lemma sample_unsynced:
  "unsyncedItems True [] (mapToWoltSku sample_details) sample_details = [(1, ''A''), (2, ''B'')]"
  by (simp add: mapToWoltSku_def skuPairs_def map_get_def sample_details_def)

lemma sample_batch:
  "backgroundUpdates (map_get (map (\<lambda>i. (inv_id i, rest i)) sample_inventory))
     (map_get (map (\<lambda>d. (det_id d, d)) sample_details)) [(1, ''A''), (2, ''B'')]
   = ([\<lparr> item_sku = ''A'', item_enabled = Some True, item_price = Number (Fin 100) \<rparr>,
       \<lparr> item_sku = ''B'', item_enabled = Some False, item_price = Number (Fin 200) \<rparr>],
      [\<lparr> inv_sku = ''A'', inventory = 5 \<rparr>, \<lparr> inv_sku = ''B'', inventory = 0 \<rparr>])"
  by (simp add: map_get_def sample_inventory_def sample_details_def)

lemma sample_marked:
  "markSynced 1000 [] [(1, ''A''), (2, ''B'')]
   = [(''A'', \<lparr> quantity = 0, enabled = False, price = Number (Fin 0), lastSeen = 1000,
               syncedToWolt = True \<rparr>),
      (''B'', \<lparr> quantity = 0, enabled = False, price = Number (Fin 0), lastSeen = 1000,
               syncedToWolt = True \<rparr>)]"
  by simp

lemma sample_worker_fields:
  "w_loadedState sample_worker = []" "w_inventoryResult sample_worker = Inr sample_inventory"
  "w_detailsResult sample_worker = Inr sample_details" "w_skipIfInState sample_worker = True"
  "w_dailyLimit sample_worker = Fin 500" "w_clock sample_worker = 1000"
  "w_woltOk sample_worker = (\<lambda>k. True)" "w_shouldStop sample_worker = (\<lambda>k. False)"
  by (simp_all add: sample_worker_def)

lemma pushLoop_one_batch:
  "pushLoop 3 (\<lambda>k. True) (\<lambda>k. False) mk (Fin 1000) [x, y] (Fin 0) (n, evs)
   = (LoopDone, (n + 1, evs @ [WoltCall (mk [x, y]) True]))"
  by (simp add: eval_nat_numeral js_slice_def Let_def)

lemma sample_worker_run:
  "syncNextBatch_run 3 sample_worker =
     (Some Completed,
      [WoltCall (Items [\<lparr> item_sku = ''A'', item_enabled = Some True,
                          item_price = Number (Fin 100) \<rparr>,
                        \<lparr> item_sku = ''B'', item_enabled = Some False,
                          item_price = Number (Fin 200) \<rparr>]) True,
       WoltCall (Inventory [\<lparr> inv_sku = ''A'', inventory = 5 \<rparr>,
                            \<lparr> inv_sku = ''B'', inventory = 0 \<rparr>]) True,
       SaveState
         [(''A'', \<lparr> quantity = 0, enabled = False, price = Number (Fin 0), lastSeen = 1000,
                   syncedToWolt = True \<rparr>),
          (''B'', \<lparr> quantity = 0, enabled = False, price = Number (Fin 0), lastSeen = 1000,
                   syncedToWolt = True \<rparr>)]])"
proof -
  have slice: "js_slice [(1 :: int, ''A''), (2, ''B'')] (Fin 0) (Fin 500) = [(1, ''A''), (2, ''B'')]"
    by (simp add: js_slice_def)
  show ?thesis
    unfolding syncNextBatch_run_def sample_worker_fields sample_worker_batchSize
    by (simp add: sample_unsynced slice sample_batch sample_marked pushLoop_one_batch
        del: markSynced.simps backgroundUpdates.simps unsyncedItems.simps pushLoop.simps)
qed

lemma sample_worker_stopped:
  "syncNextBatch_run 3 (sample_worker\<lparr> w_shouldStop := (\<lambda>k. True) \<rparr>) =
     (Some Completed,
      [SaveState
         [(''A'', \<lparr> quantity = 0, enabled = False, price = Number (Fin 0), lastSeen = 1000,
                   syncedToWolt = True \<rparr>),
          (''B'', \<lparr> quantity = 0, enabled = False, price = Number (Fin 0), lastSeen = 1000,
                   syncedToWolt = True \<rparr>)]])"
proof -
  have slice: "js_slice [(1 :: int, ''A''), (2, ''B'')] (Fin 0) (Fin 500) = [(1, ''A''), (2, ''B'')]"
    by (simp add: js_slice_def)
  have loop: "\<And>mk b x y st. pushLoop 3 (\<lambda>k. True) (\<lambda>k. True) mk b [x, y] (Fin 0) st
      = (LoopBroken, st)"
    by (simp add: eval_nat_numeral)
  show ?thesis
    unfolding syncNextBatch_run_def
    by (simp add: sample_worker_fields sample_worker_batchSize sample_unsynced slice
        sample_batch sample_marked loop
        del: markSynced.simps backgroundUpdates.simps unsyncedItems.simps pushLoop.simps)
qed

lemma sample_worker_nan:
  "syncNextBatch_run 3 (sample_worker\<lparr> w_batchSize := NaN \<rparr>) =
     (Some Completed,
      [WoltCall (Items []) True, WoltCall (Inventory []) True,
       SaveState
         [(''A'', \<lparr> quantity = 0, enabled = False, price = Number (Fin 0), lastSeen = 1000,
                   syncedToWolt = True \<rparr>),
          (''B'', \<lparr> quantity = 0, enabled = False, price = Number (Fin 0), lastSeen = 1000,
                   syncedToWolt = True \<rparr>)]])"
proof -
  have slice: "js_slice [(1 :: int, ''A''), (2, ''B'')] (Fin 0) (Fin 500) = [(1, ''A''), (2, ''B'')]"
    by (simp add: js_slice_def)
  have loop: "\<And>mk x y n evs. pushLoop 3 (\<lambda>k. True) (\<lambda>k. False) mk NaN [x, y] (Fin 0) (n, evs)
      = (LoopDone, (n + 1, evs @ [WoltCall (mk []) True]))"
    by (simp add: eval_nat_numeral js_slice_def Let_def)
  show ?thesis
    unfolding syncNextBatch_run_def
    by (simp add: sample_worker_fields sample_worker_batchSize sample_unsynced slice
        sample_batch sample_marked loop
        del: markSynced.simps backgroundUpdates.simps unsyncedItems.simps pushLoop.simps)
qed

section \<open>The two models of the worker iteration\<close>

lemma js_slice_slice0: "js_slice xs (Fin 0) (Fin (of_int n)) = slice0 xs n"
proof (cases "0 \<le> n")
  case True
  have "take (min (nat n) (length xs)) xs = take (nat n) xs"
    by (simp add: min_def)
  with True show ?thesis by (simp add: js_slice_def slice0_def Let_def)
next
  case False
  then have "nat (int (length xs) + n) = length xs - nat (- n)" by linarith
  with False show ?thesis by (simp add: js_slice_def slice0_def Let_def)
qed

lemma pushLoop_writes:
  "stateWrites (snd (snd (pushLoop fuel ok stp mk b xs i st))) = stateWrites (snd st)"
proof -
  obtain evs where "snd (snd (pushLoop fuel ok stp mk b xs i st)) = snd st @ evs"
    "stateWrites evs = []"
    using pushLoop_events by blast
  then show ?thesis by (simp add: stateWrites_append)
qed

text \<open>The effectful model saves what \<open>syncNextBatch\<close> gives as the state of a completed
  iteration.\<close>

lemma syncNextBatch_run_agrees:
  assumes inventory: "w_inventoryResult inp = Inr inventoryItems"
    and details: "w_detailsResult inp = Inr details"
    and lmt: "w_dailyLimit inp = Fin (of_int n)"
    and completed: "fst (syncNextBatch_run fuel inp) = Some Completed"
  shows "stateWrites (snd (syncNextBatch_run fuel inp)) =
     (case syncNextBatch (w_skipIfInState inp) n (w_clock inp) (w_loadedState inp)
             inventoryItems details of
        None \<Rightarrow> []
      | Some (itemUpd, invUpd, saved) \<Rightarrow> [saved])"
proof -
  define unsynced where
    "unsynced = unsyncedItems (w_skipIfInState inp) (w_loadedState inp) (mapToWoltSku details)
                  details"
  show ?thesis
  proof (cases "unsynced = []")
    case True
    with inventory details show ?thesis
      by (simp add: syncNextBatch_run_def syncNextBatch_def unsynced_def Let_def)
  next
    case False
    define batchToSync where "batchToSync = js_slice unsynced (Fin 0) (w_dailyLimit inp)"
    define upd where
      "upd = backgroundUpdates (map_get (map (\<lambda>i. (inv_id i, rest i)) inventoryItems))
               (map_get (map (\<lambda>d. (det_id d, d)) details)) batchToSync"
    define r1 where
      "r1 = (if fst upd \<noteq> []
             then pushLoop fuel (w_woltOk inp) (w_shouldStop inp) Items (w_batchSize inp)
                    (fst upd) (Fin 0) (0, [])
             else (LoopDone, (0, [])))"
    define r2 where
      "r2 = (if snd upd \<noteq> [] \<and> \<not> w_shouldStop inp (fst (snd r1))
             then pushLoop fuel (w_woltOk inp) (w_shouldStop inp) Inventory (w_batchSize inp)
                    (snd upd) (Fin 0) (snd r1)
             else (LoopDone, snd r1))"
    note run = syncNextBatch_run_phases
      [OF inventory details False [unfolded unsynced_def]
          batchToSync_def [unfolded unsynced_def] upd_def r1_def r2_def]
    have w1: "stateWrites (snd (snd r1)) = []"
      by (simp add: r1_def pushLoop_writes)
    have w2: "stateWrites (snd (snd r2)) = []"
      using w1 by (simp add: r2_def pushLoop_writes)
    have slice: "batchToSync = slice0 unsynced n"
      by (simp add: batchToSync_def lmt js_slice_slice0)
    have spec: "syncNextBatch (w_skipIfInState inp) n (w_clock inp) (w_loadedState inp)
             inventoryItems details
        = Some (fst upd, snd upd, markSynced (w_clock inp) (w_loadedState inp) batchToSync)"
      using False
      by (simp add: syncNextBatch_def Let_def split_beta upd_def slice unsynced_def)
    from completed have "snd (syncNextBatch_run fuel inp) =
        snd (snd r2) @ [SaveState (markSynced (w_clock inp) (w_loadedState inp) batchToSync)]"
      unfolding run by (auto split: loopEnd.splits)
    then show ?thesis
      by (simp add: spec stateWrites_append w2)
  qed
qed

section \<open>Persisted entries and confirmed SKUs\<close>

text \<open>
  Claim C6, as the code has it. In every non-bootstrap run of the SyncEngine, each state
  handed to \<^verbatim>\<open>saveState\<close> has entries only for SKUs that already had an entry in the state
  loaded at the start of the run or were in a payload for which the marketplace adapter
  returned earlier in the same run. The same holds of an iteration of the BackgroundWorker
  when the batch size is a whole number (which is what \<^verbatim>\<open>parseInt\<close> and \<^verbatim>\<open>Math.floor\<close> leave in
  the adaptive batcher, unless it is NaN) and no stop is requested during the iteration;
  with a batch size of at least 1 the iteration returns (with more fuel than there are
  products).

  Bootstrap persists entries without any marketplace call. A bootstrap run of the
  SyncEngine calls no marketplace endpoint; a dry run saves nothing, and a run that is not
  dry and gets past the guards on the two SoT responses saves one state, whose SKUs are
  those of the view and of the loaded state. The orchestrator's \<^verbatim>\<open>bootstrapState\<close> calls no
  marketplace endpoint and saves one state, whose SKUs are those of the view.

  The two remaining writers of the state, \<^verbatim>\<open>mergeWoltState\<close> and the end of \<^verbatim>\<open>prioritySync\<close>,
  save a state with the SKUs of the state they loaded.
\<close>

theorem saved_entries_confirmed:
  "(\<not> bootstrapState opts \<longrightarrow>
      savesConfirmed (fst ` set (loadedState inp)) (snd (runWithOptions inp opts))) \<and>
   (w_batchSize worker = Fin (of_int b) \<and> (\<forall>k. \<not> w_shouldStop worker k) \<longrightarrow>
      savesConfirmed (fst ` set (w_loadedState worker)) (snd (syncNextBatch_run fuel worker))) \<and>
   (w_batchSize worker = Fin (of_int b) \<and> 1 \<le> b \<and> w_detailsResult worker = Inr products \<and>
    length products < fuel \<longrightarrow>
      fst (syncNextBatch_run fuel worker) \<noteq> None) \<and>
   (bootstrapState opts \<longrightarrow>
      marketplaceCalls (snd (runWithOptions inp opts)) = [] \<and>
      (dryRun opts \<longrightarrow> stateWrites (snd (runWithOptions inp opts)) = [])) \<and>
   (bootstrapState opts \<and> \<not> dryRun opts \<and> storeEnabled inp \<and>
    inventoryResult inp = Inr inventoryItems \<and> inventoryItems \<noteq> [] \<and>
    detailsResult inp = Inr details \<and> length inventoryItems \<le> length details \<longrightarrow>
      map (\<lambda>s. fst ` set s) (stateWrites (snd (runWithOptions inp opts)))
        = [fst ` set (buildWoltData inventoryItems details) \<union> fst ` set (loadedState inp)]) \<and>
   marketplaceCalls (snd (bootstrapState_orchestrator inventoryFetch detailsFetch now)) = [] \<and>
   map (\<lambda>s. fst ` set s)
     (stateWrites (snd (bootstrapState_orchestrator (Inr inventoryItems) (Inr details) now)))
     = [fst ` set (buildWoltData inventoryItems details)] \<and>
   fst ` set (mergeWoltState state woltItems) = fst ` set state \<and>
   fst ` set (markSyncedSkus state syncedSkus) = fst ` set state"
proof (intro conjI impI)
  assume nb: "\<not> bootstrapState opts"
  then have "snd (runWithOptions inp opts) = [] \<or>
    (\<exists>u f wd. snd (runWithOptions inp opts) =
       snd (executeSync inp opts u (detectChanges f False (clock inp) (loadedState inp) wd)))"
    by (auto simp: runWithOptions_def Let_def split: sum.splits)
  then show "savesConfirmed (fst ` set (loadedState inp)) (snd (runWithOptions inp opts))"
    using executeSync_confirmed by auto
next
  assume "w_batchSize worker = Fin (of_int b) \<and> (\<forall>k. \<not> w_shouldStop worker k)"
  then have "w_batchSize worker \<noteq> NaN" and "\<forall>k. \<not> w_shouldStop worker k"
    by simp_all
  then show "savesConfirmed (fst ` set (w_loadedState worker))
      (snd (syncNextBatch_run fuel worker))"
    by (rule syncNextBatch_run_confirmed)
next
  assume a: "w_batchSize worker = Fin (of_int b) \<and> 1 \<le> b \<and>
    w_detailsResult worker = Inr products \<and> length products < fuel"
  then have "(1 :: rat) \<le> of_int b" by simp
  with a show "fst (syncNextBatch_run fuel worker) \<noteq> None"
    using syncNextBatch_run_returns [of worker "of_int b" products fuel] by blast
next
  assume "bootstrapState opts"
  then show "marketplaceCalls (snd (runWithOptions inp opts)) = []"
    by (rule runWithOptions_bootstrap_calls)
next
  assume "bootstrapState opts" "dryRun opts"
  then show "stateWrites (snd (runWithOptions inp opts)) = []"
    by (simp add: runWithOptions_bootstrap_dry)
next
  assume "bootstrapState opts \<and> \<not> dryRun opts \<and> storeEnabled inp \<and>
    inventoryResult inp = Inr inventoryItems \<and> inventoryItems \<noteq> [] \<and>
    detailsResult inp = Inr details \<and> length inventoryItems \<le> length details"
  then show "map (\<lambda>s. fst ` set s) (stateWrites (snd (runWithOptions inp opts)))
        = [fst ` set (buildWoltData inventoryItems details) \<union> fst ` set (loadedState inp)]"
    using runWithOptions_bootstrap_writes by blast
next
  show "marketplaceCalls (snd (bootstrapState_orchestrator inventoryFetch detailsFetch now)) = []"
    by (rule bootstrapState_orchestrator_calls)
next
  show "map (\<lambda>s. fst ` set s)
     (stateWrites (snd (bootstrapState_orchestrator (Inr inventoryItems) (Inr details) now)))
     = [fst ` set (buildWoltData inventoryItems details)]"
    by (rule bootstrapState_orchestrator_writes)
next
  show "fst ` set (mergeWoltState state woltItems) = fst ` set state"
    by (rule mergeWoltState_keys)
next
  show "fst ` set (markSyncedSkus state syncedSkus) = fst ` set state"
    by (rule markSyncedSkus_keys)
qed

theorem saved_entries_confirmed_witness:
  "savesConfirmed (fst ` set sample_previousState)
     (snd (runWithOptions sample_input
        \<lparr> dryRun = False, limit = None, forceFullSync = False, bootstrapState = False \<rparr>)) \<and>
   savesConfirmed {} (snd (syncNextBatch_run 3 sample_worker)) \<and>
   fst (syncNextBatch_run 3 sample_worker) \<noteq> None \<and>
   marketplaceCalls
     (snd (runWithOptions sample_input
        \<lparr> dryRun = False, limit = None, forceFullSync = False, bootstrapState = True \<rparr>)) = [] \<and>
   map (\<lambda>s. fst ` set s)
     (stateWrites (snd (runWithOptions sample_input
        \<lparr> dryRun = False, limit = None, forceFullSync = False, bootstrapState = True \<rparr>)))
     = [{''A'', ''B'', ''Z''}] \<and>
   stateWrites
     (snd (runWithOptions sample_input
        \<lparr> dryRun = True, limit = None, forceFullSync = False, bootstrapState = True \<rparr>)) = [] \<and>
   map (\<lambda>s. fst ` set s)
     (stateWrites (snd (bootstrapState_orchestrator (Inr sample_inventory) (Inr sample_details)
                          1000)))
     = [{''A'', ''B''}] \<and>
   fst ` set (mergeWoltState sample_previousState [Some ''A'', None, Some ''Q'']) = {''A'', ''Z''} \<and>
   fst ` set (markSyncedSkus sample_previousState [''Z'', ''Q'']) = {''A'', ''Z''}"
proof -
  have keys: "fst ` set (buildWoltData sample_inventory sample_details) = {''A'', ''B''}"
    "fst ` set sample_previousState = {''A'', ''Z''}"
    by (auto simp: sample_view sample_previousState_def)
  have fields: "storeEnabled sample_input" "inventoryResult sample_input = Inr sample_inventory"
    "detailsResult sample_input = Inr sample_details"
    "loadedState sample_input = sample_previousState"
    by (simp_all add: sample_input_def)
  note inst = saved_entries_confirmed [where inp = sample_input and worker = sample_worker
      and fuel = 3 and b = 1000 and products = sample_details
      and inventoryItems = sample_inventory and details = sample_details and now = 1000
      and state = sample_previousState and woltItems = "[Some ''A'', None, Some ''Q'']"
      and syncedSkus = "[''Z'', ''Q'']"]
  show ?thesis
    using
      inst [where opts = "\<lparr> dryRun = False, limit = None, forceFullSync = False,
                             bootstrapState = False \<rparr>"]
      inst [where opts = "\<lparr> dryRun = False, limit = None, forceFullSync = False,
                             bootstrapState = True \<rparr>"]
      inst [where opts = "\<lparr> dryRun = True, limit = None, forceFullSync = False,
                             bootstrapState = True \<rparr>"]
    by (simp add: keys fields sample_lengths sample_worker_batchSize sample_worker_fields
        insert_commute)
qed

text \<open>
  Claim C6 as stated fails in three ways. A bootstrap run for a store without state
  persists an entry for every SKU of the view (here A and B) although no marketplace call
  has been made, in this run or before. An iteration of the BackgroundWorker during which a
  stop is requested leaves its push loops at once and still records A and B as synced. An
  iteration whose batch size is NaN sends one empty payload to each endpoint and records A
  and B as synced.
\<close>

theorem bootstrap_unconfirmed_counterexample:
  "runWithOptions (sample_input\<lparr> loadedState := [] \<rparr>)
     \<lparr> dryRun = False, limit = None, forceFullSync = False, bootstrapState = True \<rparr>
   = (Completed,
      [SaveState
        [(''A'', \<lparr> quantity = 5, enabled = True, price = Number (Fin 100), lastSeen = 1000,
                  syncedToWolt = False \<rparr>),
         (''B'', \<lparr> quantity = 0, enabled = False, price = Number (Fin 200), lastSeen = 1000,
                  syncedToWolt = False \<rparr>)]]) \<and>
   \<not> savesConfirmed {}
     (snd (runWithOptions (sample_input\<lparr> loadedState := [] \<rparr>)
        \<lparr> dryRun = False, limit = None, forceFullSync = False, bootstrapState = True \<rparr>)) \<and>
   syncNextBatch_run 3 (sample_worker\<lparr> w_shouldStop := (\<lambda>k. True) \<rparr>) =
     (Some Completed,
      [SaveState
         [(''A'', \<lparr> quantity = 0, enabled = False, price = Number (Fin 0), lastSeen = 1000,
                   syncedToWolt = True \<rparr>),
          (''B'', \<lparr> quantity = 0, enabled = False, price = Number (Fin 0), lastSeen = 1000,
                   syncedToWolt = True \<rparr>)]]) \<and>
   \<not> savesConfirmed {}
     (snd (syncNextBatch_run 3 (sample_worker\<lparr> w_shouldStop := (\<lambda>k. True) \<rparr>))) \<and>
   syncNextBatch_run 3 (sample_worker\<lparr> w_batchSize := NaN \<rparr>) =
     (Some Completed,
      [WoltCall (Items []) True, WoltCall (Inventory []) True,
       SaveState
         [(''A'', \<lparr> quantity = 0, enabled = False, price = Number (Fin 0), lastSeen = 1000,
                   syncedToWolt = True \<rparr>),
          (''B'', \<lparr> quantity = 0, enabled = False, price = Number (Fin 0), lastSeen = 1000,
                   syncedToWolt = True \<rparr>)]]) \<and>
   \<not> savesConfirmed {}
     (snd (syncNextBatch_run 3 (sample_worker\<lparr> w_batchSize := NaN \<rparr>)))"
proof (intro conjI)
  show "runWithOptions (sample_input\<lparr> loadedState := [] \<rparr>)
     \<lparr> dryRun = False, limit = None, forceFullSync = False, bootstrapState = True \<rparr>
   = (Completed,
      [SaveState
        [(''A'', \<lparr> quantity = 5, enabled = True, price = Number (Fin 100), lastSeen = 1000,
                  syncedToWolt = False \<rparr>),
         (''B'', \<lparr> quantity = 0, enabled = False, price = Number (Fin 200), lastSeen = 1000,
                  syncedToWolt = False \<rparr>)]])"
    by (simp add: runWithOptions_def sample_input_def sample_view sample_lengths
        detectChanges_def diffSku_def Let_def)
  then show "\<not> savesConfirmed {}
     (snd (runWithOptions (sample_input\<lparr> loadedState := [] \<rparr>)
        \<lparr> dryRun = False, limit = None, forceFullSync = False, bootstrapState = True \<rparr>))"
    by simp
  show "syncNextBatch_run 3 (sample_worker\<lparr> w_shouldStop := (\<lambda>k. True) \<rparr>) =
     (Some Completed,
      [SaveState
         [(''A'', \<lparr> quantity = 0, enabled = False, price = Number (Fin 0), lastSeen = 1000,
                   syncedToWolt = True \<rparr>),
          (''B'', \<lparr> quantity = 0, enabled = False, price = Number (Fin 0), lastSeen = 1000,
                   syncedToWolt = True \<rparr>)]])"
    by (rule sample_worker_stopped)
  show "\<not> savesConfirmed {}
     (snd (syncNextBatch_run 3 (sample_worker\<lparr> w_shouldStop := (\<lambda>k. True) \<rparr>)))"
    by (simp add: sample_worker_stopped)
  show "syncNextBatch_run 3 (sample_worker\<lparr> w_batchSize := NaN \<rparr>) =
     (Some Completed,
      [WoltCall (Items []) True, WoltCall (Inventory []) True,
       SaveState
         [(''A'', \<lparr> quantity = 0, enabled = False, price = Number (Fin 0), lastSeen = 1000,
                   syncedToWolt = True \<rparr>),
          (''B'', \<lparr> quantity = 0, enabled = False, price = Number (Fin 0), lastSeen = 1000,
                   syncedToWolt = True \<rparr>)]])"
    by (rule sample_worker_nan)
  show "\<not> savesConfirmed {}
     (snd (syncNextBatch_run 3 (sample_worker\<lparr> w_batchSize := NaN \<rparr>)))"
    by (simp add: sample_worker_nan)
qed

section \<open>Properties of BackgroundWorker.syncNextBatch (core/backgroundWorker.ts)\<close>

lemma unpriced_view:
  "buildWoltData unpriced_inventory unpriced_details =
     [(''C'', \<lparr> data_quantity = 7, data_price = Undefined, data_enabled = True \<rparr>)]"
  by (simp add: buildWoltData_def addProduct_def mapToWoltSku_def skuPairs_def map_get_def
      unpriced_inventory_def unpriced_details_def)

lemma unpriced_lengths:
  "unpriced_inventory \<noteq> []" "length unpriced_inventory = 1" "length unpriced_details = 1"
  by (simp_all add: unpriced_inventory_def unpriced_details_def)

text \<open>
  Claim C1 does not hold of the code. Product 3 has 7 items in stock, SKU C and no price,
  and the store has no state. The SyncEngine run sends the item update enabled = true with
  no price and the inventory update 7, and every state it saves records quantity 7 and
  enabled true for C. A BackgroundWorker iteration sends the same two updates (the entry it
  writes for the unknown SKU is quantity 0, enabled false, price 0, whatever the price).
  Neither path tests the price.
\<close>

theorem unpriced_sku_not_zeroed:
  "runWithOptions unpriced_input
     \<lparr> dryRun = False, limit = None, forceFullSync = False, bootstrapState = False \<rparr>
   = (Completed,
      [WoltCall (Items [\<lparr> item_sku = ''C'', item_enabled = Some True,
                          item_price = Undefined \<rparr>]) True,
       SaveState [(''C'', \<lparr> quantity = 7, enabled = True, price = Undefined,
                            lastSeen = 1000, syncedToWolt = False \<rparr>)],
       WoltCall (Inventory [\<lparr> inv_sku = ''C'', inventory = 7 \<rparr>]) True,
       SaveState [(''C'', \<lparr> quantity = 7, enabled = True, price = Undefined,
                            lastSeen = 1000, syncedToWolt = False \<rparr>)],
       SaveState [(''C'', \<lparr> quantity = 7, enabled = True, price = Undefined,
                            lastSeen = 1000, syncedToWolt = False \<rparr>)]]) \<and>
   syncNextBatch True 500 1000 [] unpriced_inventory unpriced_details
   = Some ([\<lparr> item_sku = ''C'', item_enabled = Some True, item_price = Undefined \<rparr>],
           [\<lparr> inv_sku = ''C'', inventory = 7 \<rparr>],
           [(''C'', \<lparr> quantity = 0, enabled = False, price = Number (Fin 0),
                     lastSeen = 1000, syncedToWolt = True \<rparr>)])"
proof
  show "runWithOptions unpriced_input
     \<lparr> dryRun = False, limit = None, forceFullSync = False, bootstrapState = False \<rparr>
   = (Completed,
      [WoltCall (Items [\<lparr> item_sku = ''C'', item_enabled = Some True,
                          item_price = Undefined \<rparr>]) True,
       SaveState [(''C'', \<lparr> quantity = 7, enabled = True, price = Undefined,
                            lastSeen = 1000, syncedToWolt = False \<rparr>)],
       WoltCall (Inventory [\<lparr> inv_sku = ''C'', inventory = 7 \<rparr>]) True,
       SaveState [(''C'', \<lparr> quantity = 7, enabled = True, price = Undefined,
                            lastSeen = 1000, syncedToWolt = False \<rparr>)],
       SaveState [(''C'', \<lparr> quantity = 7, enabled = True, price = Undefined,
                            lastSeen = 1000, syncedToWolt = False \<rparr>)]])"
    by (simp add: runWithOptions_def executeSync_def phase1_def phase2_def unpriced_input_def
        unpriced_view unpriced_lengths detectChanges_def diffSku_def sample_batch_size
        applyLimit_def chunks.simps limitSet_def updateSyncedState_def Let_def)
  show "syncNextBatch True 500 1000 [] unpriced_inventory unpriced_details
   = Some ([\<lparr> item_sku = ''C'', item_enabled = Some True, item_price = Undefined \<rparr>],
           [\<lparr> inv_sku = ''C'', inventory = 7 \<rparr>],
           [(''C'', \<lparr> quantity = 0, enabled = False, price = Number (Fin 0),
                     lastSeen = 1000, syncedToWolt = True \<rparr>)])"
    by (simp add: syncNextBatch_def mapToWoltSku_def skuPairs_def map_get_def slice0_def
        unpriced_inventory_def unpriced_details_def)
qed

section \<open>Properties of the rate limiter\<close>










lemma parse_two_seconds: "parseRetryAfterMs (\<lambda>s. None) (HString ''2'') now = Some (2 * 1000)"
  by (simp add: parseRetryAfterMs_def trim_def is_space_def is_digit_def digits_val_def
      digit_val_def)







text \<open>
  The whole milliseconds in the statement are needed when the options are not whole
  numbers (\<^verbatim>\<open>fromEnv\<close> only produces whole numbers): with a buffer of half a millisecond the
  gate is 12000.5, the timer truncates the wait of 1999.5 ms, and the request goes out
  at 12000.
\<close>

lemma fractional_buffer_truncated:
  "runLimiter ((defaultLimiterOptions ''k'')\<lparr> retryAfterBufferMs := 1 / 2 \<rparr>) (\<lambda>s. None)
     [OnRateLimited (HString ''2'') 10000 0 True, WaitForTurn 10001 0]
     (newLimiter, FileMissing)
   = [(12000, 3999 / 2)]"
proof -
  have "\<lfloor>3999 / 2 :: rat\<rfloor> = 1999"
    by (rule floor_unique) simp_all
  then show ?thesis
    by (simp add: parse_two_seconds onRateLimited_def waitForTurn_def setTimeoutDelay_def
        saveLimiterState_def loadLimiterState_def hasKey_def defaultLimiterOptions_def
        newLimiter_def Let_def)
qed


end
